theory Spec2Isabelle
  imports Main "HOL-Library.AList"
begin

section \<open>Python strings\<close>

text \<open>
  A Python \<open>str\<close> is modelled as a \<open>string\<close>; a character stands for a code point
  below 256 (ASCII and the Latin-1 supplement), which covers the file names of an
  \<open>ls-R\<close> database and the package keys of the catalogue.
\<close>

definition startswith :: "string \<Rightarrow> string \<Rightarrow> bool" where
  "startswith s p = (take (length p) s = p)"

definition endswith :: "string \<Rightarrow> string \<Rightarrow> bool" where
  "endswith s p = (length p \<le> length s \<and> drop (length s - length p) s = p)"

text \<open>\<open>line.rstrip('\n')\<close>: every trailing line feed is removed.\<close>

definition rstrip_nl :: "string \<Rightarrow> string" where
  "rstrip_nl s = rev (dropWhile (\<lambda>c. c = CHR 0x0A) (rev s))"

text \<open>
  \<open>str.lower\<close> on code points below 256: the upper-case letters are \<open>A\<close>..\<open>Z\<close>
  (65..90) and the Latin-1 capitals 192..222 without the multiplication sign 215; each
  is moved up by 32.
\<close>

definition lower_char :: "char \<Rightarrow> char" where
  "lower_char c =
     (let n = (of_char c :: nat)
      in if (65 \<le> n \<and> n \<le> 90) \<or> (192 \<le> n \<and> n \<le> 222 \<and> n \<noteq> 215)
         then char_of (n + 32) else c)"

definition lower :: "string \<Rightarrow> string" where
  "lower s = map lower_char s"

text \<open>\<open>s.rfind(c)\<close>: the highest index at which \<open>c\<close> occurs, or \<open>-1\<close>.\<close>

definition rfind :: "string \<Rightarrow> char \<Rightarrow> int" where
  "rfind s c =
     (if c \<in> set s
      then int (length s) - 1 - int (length (takeWhile (\<lambda>x. x \<noteq> c) (rev s)))
      else - 1)"

text \<open>\<open>s.split(c)\<close> for a one-character separator: never the empty list.\<close>

fun split_sep :: "char \<Rightarrow> string \<Rightarrow> string list" where
  "split_sep c [] = ['''']"
| "split_sep c (x # xs) =
     (let r = split_sep c xs
      in if x = c then [] # r else (x # hd r) # tl r)"

section \<open>The part of \<open>pathlib\<close> the script uses\<close>

text \<open>
  \<open>Path\<close> is the POSIX flavour (the script reads a TeX Live tree under \<open>/usr/local\<close>),
  with \<open>suffix\<close> and \<open>stem\<close> as pathlib defines them up to Python 3.13:
  the last dot of the final component counts when it is neither its first nor its
  last character. A path is split at \<open>/\<close>; empty components and \<open>.\<close> are dropped;
  a leading \<open>/\<close> is the root (\<open>//\<close> when there are exactly two).
\<close>

definition path_root :: "string \<Rightarrow> string" where
  "path_root s =
     (if startswith s ''/''
      then (if length (takeWhile (\<lambda>c. c = CHR ''/'') s) = 2 then ''//'' else ''/'')
      else '''')"

definition path_tail :: "string \<Rightarrow> string list" where
  "path_tail s =
     filter (\<lambda>x. x \<noteq> '''' \<and> x \<noteq> ''.'')
       (split_sep (CHR ''/'') (dropWhile (\<lambda>c. c = CHR ''/'') s))"

definition path_parts :: "string \<Rightarrow> string list" where
  "path_parts s = (if path_root s = '''' then [] else [path_root s]) @ path_tail s"

definition path_name :: "string \<Rightarrow> string" where
  "path_name s = (case path_tail s of [] \<Rightarrow> '''' | _ # _ \<Rightarrow> last (path_tail s))"

definition path_suffix :: "string \<Rightarrow> string" where
  "path_suffix s =
     (let name = path_name s; i = rfind name (CHR ''.'')
      in if 0 < i \<and> i < int (length name) - 1 then drop (nat i) name else '''')"

definition path_stem :: "string \<Rightarrow> string" where
  "path_stem s =
     (let name = path_name s; i = rfind name (CHR ''.'')
      in if 0 < i \<and> i < int (length name) - 1 then take (nat i) name else name)"

section \<open>Data model\<close>

text \<open>
  A Python \<open>dict\<close> is an association list: \<open>map_of\<close> reads a key,
  \<open>AList.update\<close> writes one (an existing key keeps its position, a new key goes
  to the end, as a \<open>dict\<close> keeps insertion order), and iterating over the dictionary
  walks its keys \<open>map fst\<close>.
\<close>

type_synonym 'v dict = "(string \<times> 'v) list"

text \<open>One element of the list fetched from CTAN: the fields \<open>key\<close> and \<open>caption\<close>.\<close>

record ctan_item =
  key :: string
  caption :: string

text \<open>The value stored under a package or class name in every table.\<close>

record entry =
  command :: string
  detail :: string
  documentation :: string

text \<open>The local variables of \<open>load_texmfbd\<close> that live across iterations of its loop.\<close>

record pstate =
  lsRdb :: "string list dict"
  pkg :: "string option"
  pkgfiles :: "string list"
  allfiles :: "string list"

section \<open>\<open>build_ctanDict\<close>\<close>

text \<open>The dictionary stored under \<open>x['key']\<close>: the three assignments of the loop body.\<close>

definition ctan_entry :: "ctan_item \<Rightarrow> entry" where
  "ctan_entry x =
     \<lparr>command = key x, detail = caption x,
      documentation = ''https://ctan.org/pkg/'' @ key x\<rparr>"

definition build_ctanDict :: "ctan_item list \<Rightarrow> entry dict" where
  "build_ctanDict ctanList =
     foldl (\<lambda>ctanDict x. AList.update (key x) (ctan_entry x) ctanDict) [] ctanList"

section \<open>\<open>load_texmfbd\<close>\<close>

definition skipped :: "string \<Rightarrow> bool" where
  "skipped line = (startswith line ''./doc'' \<or> startswith line ''./source'')"

definition opens_block :: "string \<Rightarrow> bool" where
  "opens_block line = (endswith line '':'' \<and> startswith line ''./'')"

text \<open>
  The inner loop over \<open>reversed(Path(line[0:-1]).parts)\<close>: the first part that is a
  key of the catalogue, or \<open>None\<close>.
\<close>

definition find_pkg :: "string list \<Rightarrow> string \<Rightarrow> string option" where
  "find_pkg allpkgs line =
     List.find (\<lambda>part. part \<in> set allpkgs) (rev (path_parts (butlast line)))"

definition relevant :: "string \<Rightarrow> bool" where
  "relevant line = (path_suffix line \<in> set [''.sty'', ''.def'', ''.cls''])"

text \<open>
  \<open>lsRdb[pkg].extend(pkgfiles)\<close>, after \<open>lsRdb[pkg] = []\<close> when the key is new.
\<close>

definition extend_db :: "string \<Rightarrow> string list \<Rightarrow> string list dict \<Rightarrow> string list dict" where
  "extend_db p fs db =
     AList.update p ((case map_of db p of None \<Rightarrow> [] | Some old \<Rightarrow> old) @ fs) db"

text \<open>One iteration of the loop over the lines of the file.\<close>

definition step :: "string list \<Rightarrow> pstate \<Rightarrow> string \<Rightarrow> pstate" where
  "step allpkgs st raw =
     (let line = rstrip_nl raw
      in if skipped line then st
         else
           let st1 = (if opens_block line
                      then st\<lparr>pkg := find_pkg allpkgs line, pkgfiles := []\<rparr>
                      else st)
           in case pkg st1 of
                None \<Rightarrow> st1
              | Some p \<Rightarrow>
                  if line \<noteq> ''''
                  then (if relevant line
                        then st1\<lparr>pkgfiles := pkgfiles st1 @ [path_name line],
                                 allfiles := allfiles st1 @ [path_name line]\<rparr>
                        else st1)
                  else (if 0 < length (pkgfiles st1)
                        then st1\<lparr>lsRdb := extend_db p (pkgfiles st1) (lsRdb st1),
                                 pkg := None\<rparr>
                        else st1\<lparr>pkg := None\<rparr>))"

definition init_state :: pstate where
  "init_state = \<lparr>lsRdb = [], pkg = None, pkgfiles = [], allfiles = []\<rparr>"

definition run :: "string list \<Rightarrow> pstate \<Rightarrow> string list \<Rightarrow> pstate" where
  "run allpkgs st lsR = foldl (step allpkgs) st lsR"

text \<open>
  The file is given as the list of its lines, as iterating over the file object yields
  them (each may still end in a line feed).
\<close>

definition load_texmfbd :: "string list \<Rightarrow> entry dict \<Rightarrow> string list dict \<times> string list" where
  "load_texmfbd lsR ctanDict =
     (let st = run (map fst ctanDict) init_state lsR in (lsRdb st, allfiles st))"

section \<open>\<open>package2sty\<close> and \<open>get_packages\<close>\<close>

definition package2sty :: "string \<Rightarrow> string list dict \<Rightarrow> string list \<Rightarrow> string option" where
  "package2sty pkgname db allsty =
     (let styname = pkgname @ ''.sty''
      in if styname \<in> set allsty then Some pkgname
         else case map_of db pkgname of
                None \<Rightarrow> None
              | Some files \<Rightarrow>
                  if pkgname @ ''.sty'' \<in> set files then Some pkgname
                  else (case List.find (\<lambda>f. lower f = pkgname @ ''.sty'') files of
                          None \<Rightarrow> None
                        | Some f \<Rightarrow> Some (path_stem f)))"

text \<open>
  The body of the loop of \<open>get_packages\<close>. The key comes from the dictionary it is
  looked up in, so the \<open>None\<close> branch of the lookup is never taken.
\<close>

definition add_package ::
  "string list dict \<Rightarrow> entry dict \<Rightarrow> string list \<Rightarrow> entry dict \<Rightarrow> string \<Rightarrow> entry dict" where
  "add_package db ctanDict allsty package_data p =
     (case package2sty p db allsty of
        None \<Rightarrow> package_data
      | Some basefile \<Rightarrow>
          (case map_of ctanDict p of
             None \<Rightarrow> package_data
           | Some e \<Rightarrow> AList.update p (e\<lparr>command := basefile\<rparr>) package_data))"

definition get_packages :: "string list dict \<Rightarrow> entry dict \<Rightarrow> string list \<Rightarrow> entry dict" where
  "get_packages db ctanDict allsty =
     foldl (add_package db ctanDict allsty) [] (map fst ctanDict)"

section \<open>\<open>get_classes\<close>\<close>

definition class_entry :: "entry dict \<Rightarrow> string \<Rightarrow> entry" where
  "class_entry ctanDict base =
     (case map_of ctanDict base of
        None \<Rightarrow> \<lparr>command = base, detail = '''', documentation = ''''\<rparr>
      | Some e \<Rightarrow> \<lparr>command = base, detail = detail e, documentation = documentation e\<rparr>)"

definition add_class :: "entry dict \<Rightarrow> entry dict \<Rightarrow> string \<Rightarrow> entry dict" where
  "add_class ctanDict class_data c =
     (if \<not> endswith c ''.cls'' then class_data
      else let base = path_stem c
           in AList.update base (class_entry ctanDict base) class_data)"

definition get_classes :: "string list \<Rightarrow> entry dict \<Rightarrow> entry dict" where
  "get_classes all_lsR_files ctanDict = foldl (add_class ctanDict) [] all_lsR_files"

section \<open>\<open>add_extra_packages\<close>\<close>

definition add_extra :: "entry dict \<Rightarrow> entry dict \<Rightarrow> string \<Rightarrow> entry dict" where
  "add_extra extra_packages packages p =
     (if p \<notin> set (map fst packages)
      then (case map_of extra_packages p of
              None \<Rightarrow> packages
            | Some e \<Rightarrow> AList.update p e packages)
      else packages)"

text \<open>The dictionary \<open>packages\<close> is changed in place; the model returns the new one.\<close>

definition add_extra_packages :: "entry dict \<Rightarrow> entry dict \<Rightarrow> entry dict" where
  "add_extra_packages packages extra_packages =
     foldl (add_extra extra_packages) packages (map fst extra_packages)"

section \<open>The main program\<close>

text \<open>
  The two tables the script writes, from the list fetched from CTAN, the lines of
  \<open>ls-R\<close> and the contents of \<open>extra-packagenames.json\<close>.
\<close>

definition main_tables ::
  "ctan_item list \<Rightarrow> string list \<Rightarrow> entry dict \<Rightarrow> entry dict \<times> entry dict" where
  "main_tables ctanList lsR extras =
     (let ctanDict = build_ctanDict ctanList;
          (db, all_lsR_files) = load_texmfbd lsR ctanDict;
          package_data = add_extra_packages (get_packages db ctanDict all_lsR_files) extras;
          class_data = get_classes all_lsR_files ctanDict
      in (package_data, class_data))"

section \<open>Notions used to state the properties of the parser\<close>

text \<open>
  A raw line on which the loop body reaches and passes the test \<open>line.endswith(':') and
  line.startswith('./')\<close>: it is not one of the lines skipped first.
\<close>

definition block_header :: "string \<Rightarrow> bool" where
  "block_header raw = (\<not> skipped (rstrip_nl raw) \<and> opens_block (rstrip_nl raw))"

text \<open>
  The names the loop appends while a package is active and the lines are neither blank
  nor headers: the \<open>name\<close> of every line that is not skipped and has one of the three
  suffixes.
\<close>

definition collected :: "string list \<Rightarrow> string list" where
  "collected body =
     map (\<lambda>raw. path_name (rstrip_nl raw))
       (filter (\<lambda>raw. \<not> skipped (rstrip_nl raw) \<and> relevant (rstrip_nl raw)) body)"

text \<open>
  A name as the parser stores it: the final component of itself, with one of the three
  suffixes.
\<close>

definition stored_name :: "string \<Rightarrow> bool" where
  "stored_name x = (path_name x = x \<and> relevant x)"

text \<open>
  Every name held in the state of the parser is a stored name: the list of all files,
  the accumulator, and the lists of the package file map.
\<close>

definition names_stored :: "pstate \<Rightarrow> bool" where
  "names_stored st =
     ((\<forall>x \<in> set (allfiles st). stored_name x)
      \<and> (\<forall>x \<in> set (pkgfiles st). stored_name x)
      \<and> (\<forall>(k, fs) \<in> set (lsRdb st). \<forall>x \<in> set fs. stored_name x))"

section \<open>Facts about lists and dictionaries\<close>

lemma find_SomeD: "List.find P xs = Some x \<Longrightarrow> x \<in> set xs \<and> P x"
  by (induction xs) (auto split: if_splits)

lemma find_app:
  "List.find P (xs @ ys) = (case List.find P xs of None \<Rightarrow> List.find P ys | Some x \<Rightarrow> Some x)"
  by (induction xs) auto

lemma key_of_lookup: "map_of d k = Some v \<Longrightarrow> k \<in> set (map fst d)"
  by (metis map_of_eq_None_iff option.distinct(1) set_map)

lemma lookup_of_key: "k \<in> set (map fst d) \<Longrightarrow> \<exists>v. map_of d k = Some v"
  by (metis map_of_eq_None_iff not_Some_eq set_map)

section \<open>The catalogue loader\<close>

lemma map_of_build_aux:
  "map_of (foldl (\<lambda>ctanDict x. AList.update (key x) (ctan_entry x) ctanDict) d xs) k =
   (case List.find (\<lambda>x. key x = k) (rev xs) of
      None \<Rightarrow> map_of d k
    | Some x \<Rightarrow> Some (ctan_entry x))"
proof (induction xs arbitrary: d)
  case Nil
  show ?case by simp
next
  case (Cons a xs)
  show ?case
    by (auto simp: Cons.IH update_conv' find_app split: option.splits)
qed

lemma map_of_build_ctanDict:
  "map_of (build_ctanDict xs) k =
     (case List.find (\<lambda>x. key x = k) (rev xs) of None \<Rightarrow> None | Some x \<Rightarrow> Some (ctan_entry x))"
  by (simp add: build_ctanDict_def map_of_build_aux split: option.splits)

lemma find_distinct_key:
  "distinct (map key xs) \<Longrightarrow> x \<in> set xs \<Longrightarrow> List.find (\<lambda>y. key y = key x) xs = Some x"
  by (induction xs) (auto simp: image_iff)

text \<open>
  Claim C10. The loader maps the key \<open>k\<close> of every raw record, whose caption is
  \<open>c\<close>, to the record with command \<open>k\<close>, documentation
  \<open>https://ctan.org/pkg/\<close> followed by \<open>k\<close>, and detail \<open>c\<close>; keys
  identify the records of the catalogue, so no two records share one. In particular the
  documentation stored under every loaded key \<open>k\<close> is the URL prefix followed by
  \<open>k\<close>, whatever the list; and the key of every record of any list is loaded, with
  the caption of a record of that key as detail.
\<close>

theorem loader_maps_key_to_entry:
  "(distinct (map key ctanList) \<and> x \<in> set ctanList \<longrightarrow>
      map_of (build_ctanDict ctanList) (key x) =
        Some \<lparr>command = key x, detail = caption x,
              documentation = ''https://ctan.org/pkg/'' @ key x\<rparr>)
   \<and> (map_of (build_ctanDict ctanList) k = Some e \<longrightarrow>
        documentation e = ''https://ctan.org/pkg/'' @ k \<and> command e = k)
   \<and> (x \<in> set ctanList \<longrightarrow>
        (\<exists>y \<in> set ctanList. key y = key x \<and>
           map_of (build_ctanDict ctanList) (key x) =
             Some \<lparr>command = key x, detail = caption y,
                   documentation = ''https://ctan.org/pkg/'' @ key x\<rparr>))"
proof -
  have 1: "distinct (map key ctanList) \<and> x \<in> set ctanList \<longrightarrow>
      map_of (build_ctanDict ctanList) (key x) =
        Some \<lparr>command = key x, detail = caption x,
              documentation = ''https://ctan.org/pkg/'' @ key x\<rparr>"
  proof
    assume a: "distinct (map key ctanList) \<and> x \<in> set ctanList"
    then have "distinct (map key (rev ctanList))" and "x \<in> set (rev ctanList)"
      by (simp_all add: rev_map [symmetric])
    then have "List.find (\<lambda>y. key y = key x) (rev ctanList) = Some x"
      by (rule find_distinct_key)
    then show "map_of (build_ctanDict ctanList) (key x) =
        Some \<lparr>command = key x, detail = caption x,
              documentation = ''https://ctan.org/pkg/'' @ key x\<rparr>"
      by (simp add: map_of_build_ctanDict ctan_entry_def)
  qed
  have 2: "map_of (build_ctanDict ctanList) k = Some e \<longrightarrow>
        documentation e = ''https://ctan.org/pkg/'' @ k \<and> command e = k"
  proof
    assume "map_of (build_ctanDict ctanList) k = Some e"
    then obtain y where y: "List.find (\<lambda>x. key x = k) (rev ctanList) = Some y" and e: "e = ctan_entry y"
      by (auto simp: map_of_build_ctanDict split: option.splits)
    from y have "key y = k" by (auto dest: find_SomeD)
    with e show "documentation e = ''https://ctan.org/pkg/'' @ k \<and> command e = k"
      by (simp add: ctan_entry_def)
  qed
  have 3: "x \<in> set ctanList \<longrightarrow>
        (\<exists>y \<in> set ctanList. key y = key x \<and>
           map_of (build_ctanDict ctanList) (key x) =
             Some \<lparr>command = key x, detail = caption y,
                   documentation = ''https://ctan.org/pkg/'' @ key x\<rparr>)"
  proof
    assume "x \<in> set ctanList"
    then have "List.find (\<lambda>y. key y = key x) (rev ctanList) \<noteq> None"
      by (auto simp: find_None_iff)
    then obtain y where y: "List.find (\<lambda>y. key y = key x) (rev ctanList) = Some y"
      by blast
    then have m: "y \<in> set ctanList \<and> key y = key x"
      by (auto dest: find_SomeD)
    from y have "map_of (build_ctanDict ctanList) (key x) = Some (ctan_entry y)"
      by (simp add: map_of_build_ctanDict)
    with m have "key y = key x \<and> map_of (build_ctanDict ctanList) (key x) =
             Some \<lparr>command = key x, detail = caption y,
                   documentation = ''https://ctan.org/pkg/'' @ key x\<rparr>"
      by (simp add: ctan_entry_def)
    with m show "\<exists>y \<in> set ctanList. key y = key x \<and>
           map_of (build_ctanDict ctanList) (key x) =
             Some \<lparr>command = key x, detail = caption y,
                   documentation = ''https://ctan.org/pkg/'' @ key x\<rparr>"
      by blast
  qed
  show ?thesis
    by (rule conjI [OF 1 conjI [OF 2 3]])
qed

theorem loader_maps_key_to_entry_witness:
  "map_of (build_ctanDict [\<lparr>key = ''foo'', caption = ''Foo package''\<rparr>]) ''foo'' =
     Some \<lparr>command = ''foo'', detail = ''Foo package'',
           documentation = ''https://ctan.org/pkg/foo''\<rparr>"
  using loader_maps_key_to_entry [of "[\<lparr>key = ''foo'', caption = ''Foo package''\<rparr>]"
      "\<lparr>key = ''foo'', caption = ''Foo package''\<rparr>" "''foo''"
      "\<lparr>command = ''foo'', detail = ''Foo package'',
           documentation = ''https://ctan.org/pkg/foo''\<rparr>"]
  by simp

section \<open>The package resolver\<close>

lemma map_of_add_package:
  "map_of (add_package db cd allsty acc p) =
     (case package2sty p db allsty of
        None \<Rightarrow> map_of acc
      | Some b \<Rightarrow> (case map_of cd p of None \<Rightarrow> map_of acc
                   | Some e \<Rightarrow> (map_of acc)(p \<mapsto> e\<lparr>command := b\<rparr>)))"
  by (simp add: add_package_def update_conv' split: option.splits)

lemma map_of_foldl_add_package:
  "map_of (foldl (add_package db cd allsty) acc ks) p =
     (if p \<in> set ks
      then (case package2sty p db allsty of
              None \<Rightarrow> map_of acc p
            | Some b \<Rightarrow> (case map_of cd p of None \<Rightarrow> map_of acc p
                         | Some e \<Rightarrow> Some (e\<lparr>command := b\<rparr>)))
      else map_of acc p)"
proof (induction ks arbitrary: acc)
  case Nil
  show ?case by simp
next
  case (Cons k ks)
  show ?case
    by (auto simp: Cons.IH map_of_add_package split: option.splits)
qed

lemma map_of_get_packages:
  "map_of (get_packages db cd allsty) p =
     (case map_of cd p of
        None \<Rightarrow> None
      | Some e \<Rightarrow> (case package2sty p db allsty of
                     None \<Rightarrow> None
                   | Some b \<Rightarrow> Some (e\<lparr>command := b\<rparr>)))"
proof (cases "map_of cd p")
  case None
  then have "p \<notin> set (map fst cd)"
    by (simp add: map_of_eq_None_iff)
  then show ?thesis
    using None by (simp add: get_packages_def map_of_foldl_add_package)
next
  case (Some e)
  then have "p \<in> set (map fst cd)"
    by (metis map_of_eq_None_iff option.distinct(1) set_map)
  then show ?thesis
    using Some by (simp add: get_packages_def map_of_foldl_add_package split: option.splits)
qed

lemma package2sty_None_iff:
  "package2sty p db allsty = None \<longleftrightarrow>
     p @ ''.sty'' \<notin> set allsty \<and>
     (\<forall>files. map_of db p = Some files \<longrightarrow>
        p @ ''.sty'' \<notin> set files \<and> (\<forall>f \<in> set files. lower f \<noteq> p @ ''.sty''))"
proof -
  have c: "\<And>files. (case List.find (\<lambda>f. lower f = p @ ''.sty'') files of
                None \<Rightarrow> None | Some f \<Rightarrow> Some (path_stem f)) = None
            \<longleftrightarrow> (\<forall>f \<in> set files. lower f \<noteq> p @ ''.sty'')"
    by (auto simp: find_None_iff split: option.splits dest: find_SomeD)
  show ?thesis
    by (cases "map_of db p") (simp_all add: package2sty_def Let_def c)
qed

text \<open>
  Claim C1. For every key \<open>p\<close> of the catalogue, \<open>p\<close> is in the package table
  exactly when a command resolves for it, that is when \<open>p.sty\<close> occurs in the list of
  all files, or \<open>p\<close> has attributed files that hold \<open>p.sty\<close> or a name whose
  lower-case form is \<open>p.sty\<close>; this is when \<open>package2sty\<close> returns a command. The
  entry is the catalogue's entry for \<open>p\<close> with the command overwritten: by \<open>p\<close>
  when \<open>p.sty\<close> occurs in the list of all files (step 1), by \<open>p\<close> when it does not
  but is among the attributed files of \<open>p\<close>, and otherwise by the stem of the first
  attributed name whose lower-case form is \<open>p.sty\<close> (step 2). When none of the steps
  yields a command, \<open>p\<close> is not a key of the table.
\<close>

theorem resolver_includes_iff_resolved:
  assumes "p \<in> set (map fst ctanDict)"
  shows "(map_of (get_packages db ctanDict allsty) p \<noteq> None
            \<longleftrightarrow> package2sty p db allsty \<noteq> None)
       \<and> (p @ ''.sty'' \<in> set allsty \<longrightarrow>
            (\<exists>e. map_of ctanDict p = Some e
               \<and> map_of (get_packages db ctanDict allsty) p = Some (e\<lparr>command := p\<rparr>)))
       \<and> (p @ ''.sty'' \<notin> set allsty \<and>
            (\<forall>files. map_of db p = Some files \<longrightarrow>
               p @ ''.sty'' \<notin> set files \<and> (\<forall>f \<in> set files. lower f \<noteq> p @ ''.sty''))
            \<longrightarrow> p \<notin> set (map fst (get_packages db ctanDict allsty)))
       \<and> (p \<in> set (map fst (get_packages db ctanDict allsty)) \<longleftrightarrow>
            p @ ''.sty'' \<in> set allsty
            \<or> (\<exists>files. map_of db p = Some files
                 \<and> (p @ ''.sty'' \<in> set files \<or> (\<exists>f \<in> set files. lower f = p @ ''.sty''))))
       \<and> (p @ ''.sty'' \<notin> set allsty \<and> map_of db p = Some files \<and> p @ ''.sty'' \<in> set files
            \<longrightarrow>
            (\<exists>e. map_of ctanDict p = Some e
               \<and> map_of (get_packages db ctanDict allsty) p = Some (e\<lparr>command := p\<rparr>)))
       \<and> (p @ ''.sty'' \<notin> set allsty \<and> map_of db p = Some files \<and> p @ ''.sty'' \<notin> set files
            \<and> List.find (\<lambda>f. lower f = p @ ''.sty'') files = Some f
            \<longrightarrow>
            (\<exists>e. map_of ctanDict p = Some e
               \<and> map_of (get_packages db ctanDict allsty) p
                   = Some (e\<lparr>command := path_stem f\<rparr>)))"
proof -
  from lookup_of_key [OF assms] obtain e where e: "map_of ctanDict p = Some e" ..
  have 1: "map_of (get_packages db ctanDict allsty) p \<noteq> None
            \<longleftrightarrow> package2sty p db allsty \<noteq> None"
    by (simp add: map_of_get_packages e split: option.splits)
  have 2: "p @ ''.sty'' \<in> set allsty \<longrightarrow>
            (\<exists>e. map_of ctanDict p = Some e
               \<and> map_of (get_packages db ctanDict allsty) p = Some (e\<lparr>command := p\<rparr>))"
    by (simp add: map_of_get_packages e package2sty_def)
  have 3: "p @ ''.sty'' \<notin> set allsty \<and>
            (\<forall>files. map_of db p = Some files \<longrightarrow>
               p @ ''.sty'' \<notin> set files \<and> (\<forall>f \<in> set files. lower f \<noteq> p @ ''.sty''))
            \<longrightarrow> p \<notin> set (map fst (get_packages db ctanDict allsty))"
  proof
    assume "p @ ''.sty'' \<notin> set allsty \<and>
            (\<forall>files. map_of db p = Some files \<longrightarrow>
               p @ ''.sty'' \<notin> set files \<and> (\<forall>f \<in> set files. lower f \<noteq> p @ ''.sty''))"
    then have "package2sty p db allsty = None"
      using package2sty_None_iff [of p db allsty] by blast
    then have "map_of (get_packages db ctanDict allsty) p = None"
      by (simp add: map_of_get_packages e)
    then show "p \<notin> set (map fst (get_packages db ctanDict allsty))"
      by (simp add: map_of_eq_None_iff)
  qed
  have k: "p \<in> set (map fst (get_packages db ctanDict allsty))
      \<longleftrightarrow> map_of (get_packages db ctanDict allsty) p \<noteq> None"
    by (simp add: map_of_eq_None_iff)
  have n: "package2sty p db allsty \<noteq> None \<longleftrightarrow>
            p @ ''.sty'' \<in> set allsty
            \<or> (\<exists>files. map_of db p = Some files
                 \<and> (p @ ''.sty'' \<in> set files \<or> (\<exists>f \<in> set files. lower f = p @ ''.sty'')))"
  proof (cases "map_of db p")
    case None
    then show ?thesis by (simp add: package2sty_None_iff)
  next
    case (Some fs)
    then show ?thesis by (auto simp: package2sty_None_iff)
  qed
  have 4: "p \<in> set (map fst (get_packages db ctanDict allsty)) \<longleftrightarrow>
            p @ ''.sty'' \<in> set allsty
            \<or> (\<exists>files. map_of db p = Some files
                 \<and> (p @ ''.sty'' \<in> set files \<or> (\<exists>f \<in> set files. lower f = p @ ''.sty'')))"
    by (simp only: k 1 n)
  have 5: "p @ ''.sty'' \<notin> set allsty \<and> map_of db p = Some files \<and> p @ ''.sty'' \<in> set files
            \<longrightarrow>
            (\<exists>e. map_of ctanDict p = Some e
               \<and> map_of (get_packages db ctanDict allsty) p = Some (e\<lparr>command := p\<rparr>))"
    by (simp add: map_of_get_packages e package2sty_def)
  have 6: "p @ ''.sty'' \<notin> set allsty \<and> map_of db p = Some files \<and> p @ ''.sty'' \<notin> set files
            \<and> List.find (\<lambda>f. lower f = p @ ''.sty'') files = Some f
            \<longrightarrow>
            (\<exists>e. map_of ctanDict p = Some e
               \<and> map_of (get_packages db ctanDict allsty) p
                   = Some (e\<lparr>command := path_stem f\<rparr>))"
    by (simp add: map_of_get_packages e package2sty_def)
  show ?thesis
    by (rule conjI [OF 1 conjI [OF 2 conjI [OF 3 conjI [OF 4 conjI [OF 5 6]]]]])
qed

theorem resolver_includes_iff_resolved_witness:
  "map_of (get_packages [] [(''foo'', \<lparr>command = ''foo'', detail = ''Foo package'',
        documentation = ''https://ctan.org/pkg/foo''\<rparr>)] [''foo.sty'']) ''foo''
     = Some \<lparr>command = ''foo'', detail = ''Foo package'',
        documentation = ''https://ctan.org/pkg/foo''\<rparr>
   \<and> ''bar'' \<notin> set (map fst (get_packages [(''bar'', [''baz.sty''])]
        [(''bar'', \<lparr>command = ''bar'', detail = ''Bar package'',
        documentation = ''https://ctan.org/pkg/bar''\<rparr>)] [''baz.sty'']))
   \<and> map_of (get_packages [(''ieeetran'', [''IEEEtran.cls'', ''IEEEtran.sty''])]
        [(''ieeetran'', \<lparr>command = ''ieeetran'', detail = ''IEEE transactions'',
            documentation = ''https://ctan.org/pkg/ieeetran''\<rparr>)]
        [''IEEEtran.cls'', ''IEEEtran.sty'']) ''ieeetran''
     = Some \<lparr>command = ''IEEEtran'', detail = ''IEEE transactions'',
            documentation = ''https://ctan.org/pkg/ieeetran''\<rparr>
   \<and> map_of (get_packages [(''baz'', [''baz.def'', ''baz.sty''])]
        [(''baz'', \<lparr>command = ''old'', detail = ''Baz package'',
            documentation = ''https://ctan.org/pkg/baz''\<rparr>)] [''other.sty'']) ''baz''
     = Some \<lparr>command = ''baz'', detail = ''Baz package'',
            documentation = ''https://ctan.org/pkg/baz''\<rparr>
   \<and> ''ieeetran'' \<in> set (map fst (get_packages [(''ieeetran'', [''IEEEtran.cls'', ''IEEEtran.sty''])]
        [(''ieeetran'', \<lparr>command = ''ieeetran'', detail = ''IEEE transactions'',
            documentation = ''https://ctan.org/pkg/ieeetran''\<rparr>)]
        [''IEEEtran.cls'', ''IEEEtran.sty'']))"
proof -
  let ?cf = "[(''foo'', \<lparr>command = ''foo'', detail = ''Foo package'',
        documentation = ''https://ctan.org/pkg/foo''\<rparr>)]"
  let ?cb = "[(''bar'', \<lparr>command = ''bar'', detail = ''Bar package'',
        documentation = ''https://ctan.org/pkg/bar''\<rparr>)]"
  let ?ci = "[(''ieeetran'', \<lparr>command = ''ieeetran'', detail = ''IEEE transactions'',
            documentation = ''https://ctan.org/pkg/ieeetran''\<rparr>)]"
  let ?cz = "[(''baz'', \<lparr>command = ''old'', detail = ''Baz package'',
            documentation = ''https://ctan.org/pkg/baz''\<rparr>)]"
  let ?fi = "[''IEEEtran.cls'', ''IEEEtran.sty'']"
  have kf: "''foo'' \<in> set (map fst ?cf)" by simp
  have kb: "''bar'' \<in> set (map fst ?cb)" by simp
  have ki: "''ieeetran'' \<in> set (map fst ?ci)" by simp
  have kz: "''baz'' \<in> set (map fst ?cz)" by simp
  have hf: "''foo'' @ ''.sty'' \<in> set [''foo.sty'']" by simp
  have "\<exists>e. map_of ?cf ''foo'' = Some e
      \<and> map_of (get_packages [] ?cf [''foo.sty'']) ''foo'' = Some (e\<lparr>command := ''foo''\<rparr>)"
    using resolver_includes_iff_resolved [OF kf, where allsty = "[''foo.sty'']" and db = "[]"
        and files = "[]" and f = "''''", THEN conjunct2, THEN conjunct1] hf
    by (rule mp)
  then have 1: "map_of (get_packages [] ?cf [''foo.sty'']) ''foo''
     = Some \<lparr>command = ''foo'', detail = ''Foo package'',
        documentation = ''https://ctan.org/pkg/foo''\<rparr>"
    by auto
  have hb: "''bar'' @ ''.sty'' \<notin> set [''baz.sty''] \<and>
      (\<forall>files. map_of [(''bar'', [''baz.sty''])] ''bar'' = Some files \<longrightarrow>
         ''bar'' @ ''.sty'' \<notin> set files
         \<and> (\<forall>f \<in> set files. lower f \<noteq> ''bar'' @ ''.sty''))"
  proof -
    have "lower ''baz.sty'' = ''baz.sty''" by code_simp
    then show ?thesis by simp
  qed
  have 2: "''bar'' \<notin> set (map fst (get_packages [(''bar'', [''baz.sty''])] ?cb [''baz.sty'']))"
    using resolver_includes_iff_resolved [OF kb, where allsty = "[''baz.sty'']"
        and db = "[(''bar'', [''baz.sty''])]" and files = "[]" and f = "''''",
        THEN conjunct2, THEN conjunct2, THEN conjunct1] hb
    by (rule mp)
  have hi: "''ieeetran'' @ ''.sty'' \<notin> set ?fi \<and> map_of [(''ieeetran'', ?fi)] ''ieeetran'' = Some ?fi
      \<and> ''ieeetran'' @ ''.sty'' \<notin> set ?fi
      \<and> List.find (\<lambda>f. lower f = ''ieeetran'' @ ''.sty'') ?fi = Some ''IEEEtran.sty''"
    by code_simp
  have st: "path_stem ''IEEEtran.sty'' = ''IEEEtran''" by code_simp
  have "\<exists>e. map_of ?ci ''ieeetran'' = Some e
      \<and> map_of (get_packages [(''ieeetran'', ?fi)] ?ci ?fi) ''ieeetran''
          = Some (e\<lparr>command := path_stem ''IEEEtran.sty''\<rparr>)"
    using resolver_includes_iff_resolved [OF ki, where allsty = ?fi
        and db = "[(''ieeetran'', ?fi)]" and files = ?fi and f = "''IEEEtran.sty''",
        THEN conjunct2, THEN conjunct2, THEN conjunct2, THEN conjunct2, THEN conjunct2] hi
    by (rule mp)
  then have 3: "map_of (get_packages [(''ieeetran'', ?fi)] ?ci ?fi) ''ieeetran''
     = Some \<lparr>command = ''IEEEtran'', detail = ''IEEE transactions'',
            documentation = ''https://ctan.org/pkg/ieeetran''\<rparr>"
    by (auto simp: st)
  have hz: "''baz'' @ ''.sty'' \<notin> set [''other.sty'']
      \<and> map_of [(''baz'', [''baz.def'', ''baz.sty''])] ''baz'' = Some [''baz.def'', ''baz.sty'']
      \<and> ''baz'' @ ''.sty'' \<in> set [''baz.def'', ''baz.sty'']"
    by simp
  have "\<exists>e. map_of ?cz ''baz'' = Some e
      \<and> map_of (get_packages [(''baz'', [''baz.def'', ''baz.sty''])] ?cz [''other.sty'']) ''baz''
          = Some (e\<lparr>command := ''baz''\<rparr>)"
    using resolver_includes_iff_resolved [OF kz, where allsty = "[''other.sty'']"
        and db = "[(''baz'', [''baz.def'', ''baz.sty''])]" and files = "[''baz.def'', ''baz.sty'']"
        and f = "''''",
        THEN conjunct2, THEN conjunct2, THEN conjunct2, THEN conjunct2, THEN conjunct1] hz
    by (rule mp)
  then have 4: "map_of (get_packages [(''baz'', [''baz.def'', ''baz.sty''])] ?cz [''other.sty'']) ''baz''
     = Some \<lparr>command = ''baz'', detail = ''Baz package'',
            documentation = ''https://ctan.org/pkg/baz''\<rparr>"
    by auto
  have ri: "''ieeetran'' @ ''.sty'' \<in> set ?fi
      \<or> (\<exists>files. map_of [(''ieeetran'', ?fi)] ''ieeetran'' = Some files
           \<and> (''ieeetran'' @ ''.sty'' \<in> set files
               \<or> (\<exists>f \<in> set files. lower f = ''ieeetran'' @ ''.sty'')))"
  proof -
    have "lower ''IEEEtran.sty'' = ''ieeetran'' @ ''.sty''" by code_simp
    then show ?thesis by simp
  qed
  have 5: "''ieeetran'' \<in> set (map fst (get_packages [(''ieeetran'', ?fi)] ?ci ?fi))"
    using resolver_includes_iff_resolved [OF ki, where allsty = ?fi
        and db = "[(''ieeetran'', ?fi)]" and files = ?fi and f = "''IEEEtran.sty''",
        THEN conjunct2, THEN conjunct2, THEN conjunct2, THEN conjunct1] ri
    by (rule iffD2)
  show ?thesis
    by (rule conjI [OF 1 conjI [OF 2 conjI [OF 3 conjI [OF 4 5]]]])
qed

section \<open>The extras merger\<close>

lemma map_of_add_extra:
  "map_of (add_extra ex acc p) k =
     (if k = p \<and> map_of acc p = None then map_of ex p else map_of acc k)"
proof (cases "map_of acc p")
  case None
  then have "p \<notin> set (map fst acc)"
    by (simp add: map_of_eq_None_iff)
  then show ?thesis
    using None by (cases "map_of ex p") (simp_all add: add_extra_def update_conv')
next
  case (Some e)
  then have "p \<in> set (map fst acc)"
    by (metis map_of_eq_None_iff option.distinct(1) set_map)
  then show ?thesis
    using Some by (simp add: add_extra_def)
qed

lemma map_of_foldl_add_extra:
  "map_of (foldl (add_extra ex) acc ks) k =
     (case map_of acc k of
        Some e \<Rightarrow> Some e
      | None \<Rightarrow> (if k \<in> set ks then map_of ex k else None))"
proof (induction ks arbitrary: acc)
  case Nil
  show ?case by (simp split: option.splits)
next
  case (Cons a ks)
  show ?case
    by (cases "map_of acc k"; cases "map_of acc a")
       (auto simp: Cons.IH map_of_add_extra split: option.splits)
qed

lemma map_of_add_extra_packages:
  "map_of (add_extra_packages packages ex) k =
     (case map_of packages k of Some e \<Rightarrow> Some e | None \<Rightarrow> map_of ex k)"
proof (cases "map_of ex k")
  case None
  then show ?thesis
    by (simp add: add_extra_packages_def map_of_foldl_add_extra split: option.splits)
next
  case (Some e)
  then have "k \<in> set (map fst ex)"
    by (metis map_of_eq_None_iff option.distinct(1) set_map)
  then show ?thesis
    by (simp add: add_extra_packages_def map_of_foldl_add_extra split: option.splits)
qed

text \<open>
  Claim C7. The merger never overwrites: a key of the package table keeps the value the
  table had (whether or not the extras have the key too), a key of the extras that is
  not in the package table receives the extras' record, and no other key appears.
\<close>

theorem extras_never_overwrite:
  "(map_of packages k = Some e \<longrightarrow>
      map_of (add_extra_packages packages extra_packages) k = Some e)
   \<and> (k \<notin> set (map fst packages) \<and> map_of extra_packages k = Some e' \<longrightarrow>
      map_of (add_extra_packages packages extra_packages) k = Some e')
   \<and> (k \<notin> set (map fst packages) \<and> k \<notin> set (map fst extra_packages) \<longrightarrow>
      k \<notin> set (map fst (add_extra_packages packages extra_packages)))"
proof -
  have n: "k \<notin> set (map fst packages) \<Longrightarrow> map_of packages k = None"
    by (simp add: map_of_eq_None_iff)
  have m: "k \<notin> set (map fst extra_packages) \<Longrightarrow> map_of extra_packages k = None"
    by (simp add: map_of_eq_None_iff)
  have 1: "map_of packages k = Some e \<longrightarrow>
      map_of (add_extra_packages packages extra_packages) k = Some e"
    by (simp add: map_of_add_extra_packages)
  have 2: "k \<notin> set (map fst packages) \<and> map_of extra_packages k = Some e' \<longrightarrow>
      map_of (add_extra_packages packages extra_packages) k = Some e'"
    using n by (simp add: map_of_add_extra_packages)
  have "k \<notin> set (map fst packages) \<and> k \<notin> set (map fst extra_packages) \<longrightarrow>
      map_of (add_extra_packages packages extra_packages) k = None"
    using n m by (simp add: map_of_add_extra_packages)
  then have 3: "k \<notin> set (map fst packages) \<and> k \<notin> set (map fst extra_packages) \<longrightarrow>
      k \<notin> set (map fst (add_extra_packages packages extra_packages))"
    by (simp add: map_of_eq_None_iff)
  show ?thesis
    by (rule conjI [OF 1 conjI [OF 2 3]])
qed

theorem extras_never_overwrite_witness:
  "map_of (add_extra_packages
       [(''foo'', \<lparr>command = ''foo'', detail = ''Foo package'', documentation = ''u''\<rparr>)]
       [(''foo'', \<lparr>command = ''other'', detail = ''Extra foo'', documentation = ''v''\<rparr>),
        (''bar'', \<lparr>command = ''bar'', detail = ''Extra bar'', documentation = ''w''\<rparr>)]) ''foo''
     = Some \<lparr>command = ''foo'', detail = ''Foo package'', documentation = ''u''\<rparr>
   \<and> map_of (add_extra_packages
       [(''foo'', \<lparr>command = ''foo'', detail = ''Foo package'', documentation = ''u''\<rparr>)]
       [(''foo'', \<lparr>command = ''other'', detail = ''Extra foo'', documentation = ''v''\<rparr>),
        (''bar'', \<lparr>command = ''bar'', detail = ''Extra bar'', documentation = ''w''\<rparr>)]) ''bar''
     = Some \<lparr>command = ''bar'', detail = ''Extra bar'', documentation = ''w''\<rparr>
   \<and> ''baz'' \<notin> set (map fst (add_extra_packages
       [(''foo'', \<lparr>command = ''foo'', detail = ''Foo package'', documentation = ''u''\<rparr>)]
       [(''foo'', \<lparr>command = ''other'', detail = ''Extra foo'', documentation = ''v''\<rparr>),
        (''bar'', \<lparr>command = ''bar'', detail = ''Extra bar'', documentation = ''w''\<rparr>)]))"
  using extras_never_overwrite [of
       "[(''foo'', \<lparr>command = ''foo'', detail = ''Foo package'', documentation = ''u''\<rparr>)]"
       "''foo''" "\<lparr>command = ''foo'', detail = ''Foo package'', documentation = ''u''\<rparr>"
       "[(''foo'', \<lparr>command = ''other'', detail = ''Extra foo'', documentation = ''v''\<rparr>),
        (''bar'', \<lparr>command = ''bar'', detail = ''Extra bar'', documentation = ''w''\<rparr>)]"]
    extras_never_overwrite [of
       "[(''foo'', \<lparr>command = ''foo'', detail = ''Foo package'', documentation = ''u''\<rparr>)]"
       "''bar''" _
       "[(''foo'', \<lparr>command = ''other'', detail = ''Extra foo'', documentation = ''v''\<rparr>),
        (''bar'', \<lparr>command = ''bar'', detail = ''Extra bar'', documentation = ''w''\<rparr>)]"
       "\<lparr>command = ''bar'', detail = ''Extra bar'', documentation = ''w''\<rparr>"]
    extras_never_overwrite [of
       "[(''foo'', \<lparr>command = ''foo'', detail = ''Foo package'', documentation = ''u''\<rparr>)]"
       "''baz''" _
       "[(''foo'', \<lparr>command = ''other'', detail = ''Extra foo'', documentation = ''v''\<rparr>),
        (''bar'', \<lparr>command = ''bar'', detail = ''Extra bar'', documentation = ''w''\<rparr>)]"]
  by simp

section \<open>The class extractor\<close>

lemma map_of_add_class:
  "map_of (add_class cd acc c) k =
     (if endswith c ''.cls'' \<and> path_stem c = k then Some (class_entry cd k) else map_of acc k)"
  by (simp add: add_class_def Let_def update_conv')

lemma map_of_foldl_add_class:
  "map_of (foldl (add_class cd) acc cs) k =
     (if \<exists>c \<in> set cs. endswith c ''.cls'' \<and> path_stem c = k
      then Some (class_entry cd k) else map_of acc k)"
proof (induction cs arbitrary: acc)
  case Nil
  show ?case by simp
next
  case (Cons c cs)
  show ?case
    by (auto simp: Cons.IH map_of_add_class)
qed

lemma foldl_add_class_filter:
  "foldl (add_class cd) acc (filter (\<lambda>c. endswith c ''.cls'') cs) = foldl (add_class cd) acc cs"
proof (induction cs arbitrary: acc)
  case Nil
  show ?case by simp
next
  case (Cons c cs)
  show ?case
  proof (cases "endswith c ''.cls''")
    case True
    then show ?thesis by (simp add: Cons.IH)
  next
    case False
    then have "add_class cd acc c = acc"
      by (simp add: add_class_def)
    with False show ?thesis by (simp add: Cons.IH)
  qed
qed

lemma article_stem: "path_stem ''article.cls'' = ''article''"
  by code_simp

lemma article_cls: "endswith ''article.cls'' ''.cls''"
  by code_simp

text \<open>
  Claim C6. For every file name \<open>c\<close> of the list that ends in \<open>.cls\<close>, the class
  table holds under the stem of \<open>c\<close> the entry whose command is the stem and whose
  detail and documentation are the catalogue's for that stem when the catalogue has it,
  and empty otherwise. Names that do not end in \<open>.cls\<close> contribute nothing: dropping
  them leaves the table the same, and every key of the table is the stem of such a name.
  The list \<open>["article.cls"]\<close> with no catalogue entry \<open>article\<close> gives exactly the
  one entry with command \<open>article\<close> and empty detail and documentation.
\<close>

theorem class_extractor_entries:
  "(c \<in> set all_lsR_files \<and> endswith c ''.cls'' \<longrightarrow>
      map_of (get_classes all_lsR_files ctanDict) (path_stem c) =
        Some \<lparr>command = path_stem c,
              detail = (case map_of ctanDict (path_stem c) of
                          None \<Rightarrow> '''' | Some e \<Rightarrow> detail e),
              documentation = (case map_of ctanDict (path_stem c) of
                          None \<Rightarrow> '''' | Some e \<Rightarrow> documentation e)\<rparr>)
   \<and> get_classes all_lsR_files ctanDict =
       get_classes (filter (\<lambda>c. endswith c ''.cls'') all_lsR_files) ctanDict
   \<and> (k \<in> set (map fst (get_classes all_lsR_files ctanDict)) \<longrightarrow>
       (\<exists>c \<in> set all_lsR_files. endswith c ''.cls'' \<and> path_stem c = k))
   \<and> (map_of ctanDict ''article'' = None \<longrightarrow>
       get_classes [''article.cls''] ctanDict =
         [(''article'', \<lparr>command = ''article'', detail = '''', documentation = ''''\<rparr>)])"
proof -
  have 1: "c \<in> set all_lsR_files \<and> endswith c ''.cls'' \<longrightarrow>
      map_of (get_classes all_lsR_files ctanDict) (path_stem c) =
        Some \<lparr>command = path_stem c,
              detail = (case map_of ctanDict (path_stem c) of
                          None \<Rightarrow> '''' | Some e \<Rightarrow> detail e),
              documentation = (case map_of ctanDict (path_stem c) of
                          None \<Rightarrow> '''' | Some e \<Rightarrow> documentation e)\<rparr>"
    by (auto simp: get_classes_def map_of_foldl_add_class class_entry_def split: option.splits)
  have 2: "get_classes all_lsR_files ctanDict =
       get_classes (filter (\<lambda>c. endswith c ''.cls'') all_lsR_files) ctanDict"
    by (simp add: get_classes_def foldl_add_class_filter)
  have 3: "k \<in> set (map fst (get_classes all_lsR_files ctanDict)) \<longrightarrow>
       (\<exists>c \<in> set all_lsR_files. endswith c ''.cls'' \<and> path_stem c = k)"
  proof
    assume a: "k \<in> set (map fst (get_classes all_lsR_files ctanDict))"
    from lookup_of_key [OF a] obtain v
      where v: "map_of (get_classes all_lsR_files ctanDict) k = Some v" ..
    have "map_of (get_classes all_lsR_files ctanDict) k =
        (if \<exists>c \<in> set all_lsR_files. endswith c ''.cls'' \<and> path_stem c = k
         then Some (class_entry ctanDict k) else None)"
      unfolding get_classes_def map_of_foldl_add_class by simp
    with v show "\<exists>c \<in> set all_lsR_files. endswith c ''.cls'' \<and> path_stem c = k"
      by (simp split: if_splits)
  qed
  have 4: "map_of ctanDict ''article'' = None \<longrightarrow>
       get_classes [''article.cls''] ctanDict =
         [(''article'', \<lparr>command = ''article'', detail = '''', documentation = ''''\<rparr>)]"
  proof
    assume a: "map_of ctanDict ''article'' = None"
    have "add_class ctanDict [] ''article.cls'' =
        AList.update ''article'' (class_entry ctanDict ''article'') []"
      unfolding add_class_def Let_def article_stem using article_cls by simp
    moreover have "class_entry ctanDict ''article'' =
        \<lparr>command = ''article'', detail = '''', documentation = ''''\<rparr>"
      unfolding class_entry_def a by simp
    ultimately show "get_classes [''article.cls''] ctanDict =
           [(''article'', \<lparr>command = ''article'', detail = '''', documentation = ''''\<rparr>)]"
      unfolding get_classes_def by simp
  qed
  show ?thesis
    by (rule conjI [OF 1 conjI [OF 2 conjI [OF 3 4]]])
qed

theorem class_extractor_entries_witness:
  "map_of (get_classes [''foo.sty'', ''article.cls'']
       [(''article'', \<lparr>command = ''article'', detail = ''Standard class'',
           documentation = ''https://ctan.org/pkg/article''\<rparr>)]) ''article''
     = Some \<lparr>command = ''article'', detail = ''Standard class'',
           documentation = ''https://ctan.org/pkg/article''\<rparr>
   \<and> get_classes [''article.cls''] [] =
         [(''article'', \<lparr>command = ''article'', detail = '''', documentation = ''''\<rparr>)]"
proof -
  have h: "''article.cls'' \<in> set [''foo.sty'', ''article.cls'']
      \<and> endswith ''article.cls'' ''.cls''"
    using article_cls by simp
  have "map_of (get_classes [''foo.sty'', ''article.cls'']
       [(''article'', \<lparr>command = ''article'', detail = ''Standard class'',
           documentation = ''https://ctan.org/pkg/article''\<rparr>)]) (path_stem ''article.cls'')
     = Some \<lparr>command = path_stem ''article.cls'',
          detail = (case map_of [(''article'', \<lparr>command = ''article'',
                  detail = ''Standard class'',
                  documentation = ''https://ctan.org/pkg/article''\<rparr>)]
                (path_stem ''article.cls'') of None \<Rightarrow> '''' | Some e \<Rightarrow> detail e),
          documentation = (case map_of [(''article'', \<lparr>command = ''article'',
                  detail = ''Standard class'',
                  documentation = ''https://ctan.org/pkg/article''\<rparr>)]
                (path_stem ''article.cls'') of None \<Rightarrow> '''' | Some e \<Rightarrow> documentation e)\<rparr>"
    using class_extractor_entries [where c = "''article.cls''"
        and all_lsR_files = "[''foo.sty'', ''article.cls'']"
        and ctanDict = "[(''article'', \<lparr>command = ''article'', detail = ''Standard class'',
           documentation = ''https://ctan.org/pkg/article''\<rparr>)]"
        and k = "''article''", THEN conjunct1] h
    by (rule mp)
  then have 1: "map_of (get_classes [''foo.sty'', ''article.cls'']
       [(''article'', \<lparr>command = ''article'', detail = ''Standard class'',
           documentation = ''https://ctan.org/pkg/article''\<rparr>)]) ''article''
     = Some \<lparr>command = ''article'', detail = ''Standard class'',
           documentation = ''https://ctan.org/pkg/article''\<rparr>"
    by (simp add: article_stem)
  have "map_of [] ''article'' = (None :: entry option) \<longrightarrow>
      get_classes [''article.cls''] [] =
         [(''article'', \<lparr>command = ''article'', detail = '''', documentation = ''''\<rparr>)]"
    by (rule class_extractor_entries [where c = "''article.cls''"
        and all_lsR_files = "[''article.cls'']" and ctanDict = "[]" and k = "''article''",
        THEN conjunct2, THEN conjunct2, THEN conjunct2])
  then have 2: "get_classes [''article.cls''] [] =
         [(''article'', \<lparr>command = ''article'', detail = '''', documentation = ''''\<rparr>)]"
    by simp
  from 1 2 show ?thesis by (rule conjI)
qed

section \<open>The filesystem index parser\<close>

lemma split_sep_nonempty: "split_sep c s \<noteq> []"
  by (induction s) (auto simp: Let_def)

lemma split_sep_snoc:
  "d \<noteq> c \<Longrightarrow> split_sep c (t @ [d]) = butlast (split_sep c t) @ [last (split_sep c t) @ [d]]"
proof (induction t)
  case Nil
  then show ?case by simp
next
  case (Cons x t)
  obtain h r where r: "split_sep c t = h # r"
    using split_sep_nonempty [of c t] by (cases "split_sep c t") auto
  show ?case
    using Cons r by (cases r) (auto simp: Let_def)
qed

lemma split_sep_no_sep: "x \<in> set (split_sep c s) \<Longrightarrow> c \<notin> set x"
proof (induction s arbitrary: x)
  case Nil
  then show ?case by simp
next
  case (Cons a s)
  obtain h r where r: "split_sep c s = h # r"
    using split_sep_nonempty [of c s] by (cases "split_sep c s") auto
  show ?case
    using Cons r by (auto simp: Let_def split: if_splits)
qed

lemma split_sep_single: "c \<notin> set s \<Longrightarrow> split_sep c s = [s]"
  by (induction s) (auto simp: Let_def)

lemma dropWhile_snoc: "\<not> P y \<Longrightarrow> dropWhile P (xs @ [y]) = dropWhile P xs @ [y]"
  by (induction xs) auto

lemma path_tail_snoc:
  assumes "d \<noteq> CHR ''/''" and "d \<noteq> CHR ''.''"
  shows "\<exists>pre e. path_tail (t @ [d]) = pre @ [e @ [d]]"
proof -
  let ?s = "dropWhile (\<lambda>c. c = CHR ''/'') t"
  have dw: "dropWhile (\<lambda>c. c = CHR ''/'') (t @ [d]) = ?s @ [d]"
    using assms by (simp add: dropWhile_snoc)
  have sp: "split_sep (CHR ''/'') (?s @ [d]) =
      butlast (split_sep (CHR ''/'') ?s) @ [last (split_sep (CHR ''/'') ?s) @ [d]]"
    using assms(1) by (rule split_sep_snoc)
  have "last (split_sep (CHR ''/'') ?s) @ [d] \<noteq> ''.''"
    using assms(2) by (cases "last (split_sep (CHR ''/'') ?s)") auto
  then show ?thesis
    unfolding path_tail_def dw sp by auto
qed

lemma path_name_snoc:
  assumes "d \<noteq> CHR ''/''" and "d \<noteq> CHR ''.''"
  shows "\<exists>e. path_name (t @ [d]) = e @ [d]"
proof -
  from path_tail_snoc [OF assms] obtain pre e where "path_tail (t @ [d]) = pre @ [e @ [d]]"
    by blast
  then have "path_name (t @ [d]) = e @ [d]"
    by (cases pre) (simp_all add: path_name_def)
  then show ?thesis ..
qed

lemma endswith_colon: "endswith l '':'' \<Longrightarrow> \<exists>t. l = t @ '':''"
proof -
  assume "endswith l '':''"
  then have "drop (length l - 1) l = '':''"
    by (simp add: endswith_def)
  then have "l = take (length l - 1) l @ '':''"
    by (metis append_take_drop_id)
  then show ?thesis ..
qed

lemma header_not_relevant:
  assumes "endswith l '':''"
  shows "\<not> relevant l"
proof
  assume r: "relevant l"
  from endswith_colon [OF assms] obtain t where t: "l = t @ '':''" ..
  from path_name_snoc [of "CHR '':''" t] obtain e where e: "path_name l = e @ '':''"
    unfolding t by auto
  let ?i = "rfind (path_name l) (CHR ''.'')"
  from r have s: "path_suffix l \<in> {''.sty'', ''.def'', ''.cls''}"
    by (simp add: relevant_def)
  then have c: "0 < ?i \<and> ?i < int (length (path_name l)) - 1"
    by (auto simp: path_suffix_def Let_def split: if_splits)
  then have d: "path_suffix l = drop (nat ?i) (e @ '':'')"
    by (simp add: path_suffix_def Let_def e)
  from c have "nat ?i < length (path_name l)"
    by linarith
  then have "nat ?i < length (e @ '':'')"
    by (simp only: e)
  then have "last (drop (nat ?i) (e @ '':'')) = CHR '':''"
    by (simp add: last_drop)
  with d have "last (path_suffix l) = CHR '':''" by simp
  with s show False by auto
qed

lemma opens_block_nonempty: "opens_block l \<Longrightarrow> l \<noteq> ''''"
  by (auto simp: opens_block_def startswith_def)

lemma step_skipped: "skipped (rstrip_nl raw) \<Longrightarrow> step ks st raw = st"
  by (simp add: step_def)

lemma step_header:
  assumes "block_header raw"
  shows "step ks st raw = st\<lparr>pkg := find_pkg ks (rstrip_nl raw), pkgfiles := []\<rparr>"
proof -
  from assms have a: "\<not> skipped (rstrip_nl raw)" and b: "opens_block (rstrip_nl raw)"
    by (simp_all add: block_header_def)
  from b have c: "\<not> relevant (rstrip_nl raw)"
    by (simp add: opens_block_def header_not_relevant)
  from b have d: "rstrip_nl raw \<noteq> ''''"
    by (rule opens_block_nonempty)
  show ?thesis
    using a b c d by (cases "find_pkg ks (rstrip_nl raw)") (simp_all add: step_def Let_def)
qed

lemma step_idle:
  assumes "pkg st = None" and "\<not> block_header raw"
  shows "step ks st raw = st"
proof (cases "skipped (rstrip_nl raw)")
  case True
  then show ?thesis by (rule step_skipped)
next
  case False
  with assms(2) have "\<not> opens_block (rstrip_nl raw)"
    by (simp add: block_header_def)
  with False assms(1) show ?thesis
    by (simp add: step_def Let_def)
qed

lemma step_file:
  assumes "pkg st = Some p" and "\<not> block_header raw" and "rstrip_nl raw \<noteq> ''''"
  shows "step ks st raw =
     (if \<not> skipped (rstrip_nl raw) \<and> relevant (rstrip_nl raw)
      then st\<lparr>pkgfiles := pkgfiles st @ [path_name (rstrip_nl raw)],
              allfiles := allfiles st @ [path_name (rstrip_nl raw)]\<rparr>
      else st)"
proof (cases "skipped (rstrip_nl raw)")
  case True
  then show ?thesis by (simp add: step_skipped)
next
  case False
  with assms(2) have "\<not> opens_block (rstrip_nl raw)"
    by (simp add: block_header_def)
  with False assms(1,3) show ?thesis
    by (simp add: step_def Let_def)
qed

lemma blank_not_header: "rstrip_nl raw = '''' \<Longrightarrow> \<not> block_header raw"
  by (simp add: block_header_def opens_block_def startswith_def)

lemma step_blank:
  assumes "rstrip_nl raw = ''''"
  shows "step ks st raw =
     (case pkg st of
        None \<Rightarrow> st
      | Some p \<Rightarrow> if pkgfiles st \<noteq> []
                  then st\<lparr>lsRdb := extend_db p (pkgfiles st) (lsRdb st), pkg := None\<rparr>
                  else st\<lparr>pkg := None\<rparr>)"
  using assms
  by (cases "pkg st")
     (simp_all add: step_def Let_def skipped_def opens_block_def startswith_def)

lemma run_Nil: "run ks st [] = st"
  by (simp add: run_def)

lemma run_Cons: "run ks st (x # xs) = run ks (step ks st x) xs"
  by (simp add: run_def)

lemma run_append: "run ks st (xs @ ys) = run ks (run ks st xs) ys"
  by (simp add: run_def)

lemma run_idle:
  "pkg st = None \<Longrightarrow> \<forall>l \<in> set body. \<not> block_header l \<Longrightarrow> run ks st body = st"
  by (induction body) (simp_all add: run_Nil run_Cons step_idle)

lemma collected_Nil: "collected [] = []"
  by (simp add: collected_def)

lemma collected_Cons:
  "collected (raw # body) =
     (if \<not> skipped (rstrip_nl raw) \<and> relevant (rstrip_nl raw)
      then path_name (rstrip_nl raw) # collected body else collected body)"
  by (simp add: collected_def)

lemma run_files:
  "pkg st = Some p \<Longrightarrow> \<forall>l \<in> set body. rstrip_nl l \<noteq> '''' \<and> \<not> block_header l \<Longrightarrow>
     run ks st body =
       st\<lparr>pkgfiles := pkgfiles st @ collected body, allfiles := allfiles st @ collected body\<rparr>"
proof (induction body arbitrary: st)
  case Nil
  show ?case by (simp add: run_Nil collected_Nil)
next
  case (Cons raw body)
  from Cons.prems have f: "step ks st raw =
     (if \<not> skipped (rstrip_nl raw) \<and> relevant (rstrip_nl raw)
      then st\<lparr>pkgfiles := pkgfiles st @ [path_name (rstrip_nl raw)],
              allfiles := allfiles st @ [path_name (rstrip_nl raw)]\<rparr>
      else st)"
    by (simp add: step_file)
  then have p: "pkg (step ks st raw) = Some p"
    using Cons.prems(1) by simp
  have "run ks (step ks st raw) body =
      (step ks st raw)\<lparr>pkgfiles := pkgfiles (step ks st raw) @ collected body,
         allfiles := allfiles (step ks st raw) @ collected body\<rparr>"
    using p Cons.prems(2) by (intro Cons.IH) simp_all
  then show ?case
    by (simp add: run_Cons f collected_Cons)
qed

lemma find_rev_split:
  "List.find P (rev xs) = Some p \<Longrightarrow>
     \<exists>pre post. xs = pre @ p # post \<and> P p \<and> (\<forall>q \<in> set post. \<not> P q)"
proof (induction xs rule: rev_induct)
  case Nil
  then show ?case by simp
next
  case (snoc x xs)
  show ?case
  proof (cases "P x")
    case True
    with snoc.prems have "p = x" by simp
    with True have "xs @ [x] = xs @ p # [] \<and> P p \<and> (\<forall>q \<in> set []. \<not> P q)" by simp
    then show ?thesis by blast
  next
    case False
    with snoc.prems have "List.find P (rev xs) = Some p" by simp
    from snoc.IH [OF this] obtain pre post
      where "xs = pre @ p # post" and "P p" and "\<forall>q \<in> set post. \<not> P q" by blast
    with False have "xs @ [x] = pre @ p # (post @ [x]) \<and> P p \<and> (\<forall>q \<in> set (post @ [x]). \<not> P q)"
      by simp
    then show ?thesis by blast
  qed
qed

lemma find_pkg_None_iff:
  "find_pkg ks l = None \<longleftrightarrow> (\<forall>q \<in> set (path_parts (butlast l)). q \<notin> set ks)"
  by (auto simp: find_pkg_def find_None_iff)

lemma step_core:
  assumes "lsRdb st = lsRdb st'" and "pkg st = pkg st'" and "pkgfiles st = pkgfiles st'"
  shows "lsRdb (step ks st raw) = lsRdb (step ks st' raw)
       \<and> pkg (step ks st raw) = pkg (step ks st' raw)
       \<and> pkgfiles (step ks st raw) = pkgfiles (step ks st' raw)"
  using assms by (simp add: step_def Let_def split: option.splits)

lemma run_core:
  "lsRdb st = lsRdb st' \<Longrightarrow> pkg st = pkg st' \<Longrightarrow> pkgfiles st = pkgfiles st' \<Longrightarrow>
     lsRdb (run ks st ls) = lsRdb (run ks st' ls)"
proof (induction ls arbitrary: st st')
  case Nil
  then show ?case by (simp add: run_Nil)
next
  case (Cons raw ls)
  from step_core [OF Cons.prems, of ks raw] show ?case
    unfolding run_Cons by (intro Cons.IH) simp_all
qed

lemma load_texmfbd_run:
  "load_texmfbd lsR cd =
     (lsRdb (run (map fst cd) init_state lsR), allfiles (run (map fst cd) init_state lsR))"
  by (simp add: load_texmfbd_def Let_def)

lemma run_unmatched_block:
  assumes "block_header h" and "find_pkg ks (rstrip_nl h) = None"
    and "\<forall>l \<in> set body. \<not> block_header l"
  shows "run ks st (h # body) = st\<lparr>pkg := None, pkgfiles := []\<rparr>"
proof -
  have "step ks st h = st\<lparr>pkg := None, pkgfiles := []\<rparr>"
    using assms(1,2) by (simp add: step_header)
  moreover have "run ks (st\<lparr>pkg := None, pkgfiles := []\<rparr>) body = st\<lparr>pkg := None, pkgfiles := []\<rparr>"
    using assms(3) by (intro run_idle) simp_all
  ultimately show ?thesis by (simp add: run_Cons)
qed

lemma run_matched_block:
  assumes "block_header h" and "find_pkg ks (rstrip_nl h) = Some p"
    and "\<forall>l \<in> set body. rstrip_nl l \<noteq> '''' \<and> \<not> block_header l"
  shows "run ks st (h # body) =
     st\<lparr>pkg := Some p, pkgfiles := collected body, allfiles := allfiles st @ collected body\<rparr>"
proof -
  have s: "step ks st h = st\<lparr>pkg := Some p, pkgfiles := []\<rparr>"
    using assms(1,2) by (simp add: step_header)
  have "run ks (st\<lparr>pkg := Some p, pkgfiles := []\<rparr>) body =
     (st\<lparr>pkg := Some p, pkgfiles := []\<rparr>)\<lparr>pkgfiles := pkgfiles (st\<lparr>pkg := Some p, pkgfiles := []\<rparr>) @ collected body,
        allfiles := allfiles (st\<lparr>pkg := Some p, pkgfiles := []\<rparr>) @ collected body\<rparr>"
    using assms(3) by (intro run_files [where p = p]) simp_all
  then show ?thesis by (simp add: run_Cons s)
qed

lemma step_gated:
  assumes "(if block_header raw then find_pkg ks (rstrip_nl raw) else pkg st) = None"
  shows "lsRdb (step ks st raw) = lsRdb st \<and> allfiles (step ks st raw) = allfiles st"
proof (cases "block_header raw")
  case True
  then show ?thesis by (simp add: step_header)
next
  case False
  with assms have "pkg st = None" by simp
  with False show ?thesis by (simp add: step_idle)
qed

text \<open>
  The header test of the loop. For every line on which the test \<open>line.endswith(':') and
  line.startswith('./')\<close> is reached and passes, the parser empties the accumulator
  and sets the current package to the first part of the directory path, scanning from
  the innermost part outward, that is a key of the catalogue (every part after it in the
  path is not a key); the package is none exactly when no part is a key, and then the
  lines that follow, up to the next header, leave the state as the header left it.
\<close>

theorem header_sets_package:
  assumes "block_header raw"
  shows "step ks st raw = st\<lparr>pkg := find_pkg ks (rstrip_nl raw), pkgfiles := []\<rparr>
     \<and> (\<forall>p. find_pkg ks (rstrip_nl raw) = Some p \<longrightarrow>
           (\<exists>pre post. path_parts (butlast (rstrip_nl raw)) = pre @ p # post
              \<and> p \<in> set ks \<and> (\<forall>q \<in> set post. q \<notin> set ks)))
     \<and> (find_pkg ks (rstrip_nl raw) = None \<longleftrightarrow>
           (\<forall>q \<in> set (path_parts (butlast (rstrip_nl raw))). q \<notin> set ks))
     \<and> (find_pkg ks (rstrip_nl raw) = None \<and> (\<forall>l \<in> set body. \<not> block_header l) \<longrightarrow>
           run ks (step ks st raw) body = st\<lparr>pkg := None, pkgfiles := []\<rparr>)"
proof -
  have 1: "step ks st raw = st\<lparr>pkg := find_pkg ks (rstrip_nl raw), pkgfiles := []\<rparr>"
    using assms by (rule step_header)
  have 2: "\<forall>p. find_pkg ks (rstrip_nl raw) = Some p \<longrightarrow>
           (\<exists>pre post. path_parts (butlast (rstrip_nl raw)) = pre @ p # post
              \<and> p \<in> set ks \<and> (\<forall>q \<in> set post. q \<notin> set ks))"
  proof (intro allI impI)
    fix p
    assume "find_pkg ks (rstrip_nl raw) = Some p"
    then have "List.find (\<lambda>part. part \<in> set ks) (rev (path_parts (butlast (rstrip_nl raw)))) = Some p"
      by (simp add: find_pkg_def)
    from find_rev_split [OF this]
    show "\<exists>pre post. path_parts (butlast (rstrip_nl raw)) = pre @ p # post
              \<and> p \<in> set ks \<and> (\<forall>q \<in> set post. q \<notin> set ks)" .
  qed
  have 3: "find_pkg ks (rstrip_nl raw) = None \<longleftrightarrow>
           (\<forall>q \<in> set (path_parts (butlast (rstrip_nl raw))). q \<notin> set ks)"
    by (rule find_pkg_None_iff)
  have 4: "find_pkg ks (rstrip_nl raw) = None \<and> (\<forall>l \<in> set body. \<not> block_header l) \<longrightarrow>
           run ks (step ks st raw) body = st\<lparr>pkg := None, pkgfiles := []\<rparr>"
  proof
    assume a: "find_pkg ks (rstrip_nl raw) = None \<and> (\<forall>l \<in> set body. \<not> block_header l)"
    then have "run ks st (raw # body) = st\<lparr>pkg := None, pkgfiles := []\<rparr>"
      using assms by (intro run_unmatched_block) simp_all
    then show "run ks (step ks st raw) body = st\<lparr>pkg := None, pkgfiles := []\<rparr>"
      by (simp only: run_Cons)
  qed
  show ?thesis
    by (rule conjI [OF 1 conjI [OF 2 conjI [OF 3 4]]])
qed

theorem header_sets_package_witness:
  "block_header ''./tex/latex/foo/sub:''
   \<and> step [''foo'', ''latex'']
        \<lparr>lsRdb = [], pkg = Some ''bar'', pkgfiles = [''x.sty''], allfiles = [''x.sty'']\<rparr>
        ''./tex/latex/foo/sub:''
      = \<lparr>lsRdb = [], pkg = Some ''foo'', pkgfiles = [], allfiles = [''x.sty'']\<rparr>
   \<and> run [''foo'', ''latex'']
        (step [''foo'', ''latex'']
           \<lparr>lsRdb = [], pkg = Some ''bar'', pkgfiles = [''x.sty''], allfiles = [''x.sty'']\<rparr>
           ''./zzz:'')
        [''a.sty'', '''']
      = \<lparr>lsRdb = [], pkg = None, pkgfiles = [], allfiles = [''x.sty'']\<rparr>"
proof -
  have h1: "block_header ''./tex/latex/foo/sub:''" by code_simp
  have f1: "find_pkg [''foo'', ''latex''] (rstrip_nl ''./tex/latex/foo/sub:'') = Some ''foo''"
    by code_simp
  have h2: "block_header ''./zzz:''" by code_simp
  have f2: "find_pkg [''foo'', ''latex''] (rstrip_nl ''./zzz:'') = None
      \<and> (\<forall>l \<in> set [''a.sty'', '''']. \<not> block_header l)"
    by code_simp
  have 1: "step [''foo'', ''latex'']
        \<lparr>lsRdb = [], pkg = Some ''bar'', pkgfiles = [''x.sty''], allfiles = [''x.sty'']\<rparr>
        ''./tex/latex/foo/sub:''
      = \<lparr>lsRdb = [], pkg = Some ''foo'', pkgfiles = [], allfiles = [''x.sty'']\<rparr>"
    using header_sets_package [OF h1, where ks = "[''foo'', ''latex'']"
        and st = "\<lparr>lsRdb = [], pkg = Some ''bar'', pkgfiles = [''x.sty''], allfiles = [''x.sty'']\<rparr>"
        and body = "[]", THEN conjunct1]
    by (simp add: f1)
  have "run [''foo'', ''latex'']
        (step [''foo'', ''latex'']
           \<lparr>lsRdb = [], pkg = Some ''bar'', pkgfiles = [''x.sty''], allfiles = [''x.sty'']\<rparr>
           ''./zzz:'')
        [''a.sty'', '''']
      = \<lparr>lsRdb = [], pkg = Some ''bar'', pkgfiles = [''x.sty''], allfiles = [''x.sty'']\<rparr>
          \<lparr>pkg := None, pkgfiles := []\<rparr>"
    using header_sets_package [OF h2, where ks = "[''foo'', ''latex'']"
        and st = "\<lparr>lsRdb = [], pkg = Some ''bar'', pkgfiles = [''x.sty''], allfiles = [''x.sty'']\<rparr>"
        and body = "[''a.sty'', '''']", THEN conjunct2, THEN conjunct2, THEN conjunct2] f2
    by (rule mp)
  then have 2: "run [''foo'', ''latex'']
        (step [''foo'', ''latex'']
           \<lparr>lsRdb = [], pkg = Some ''bar'', pkgfiles = [''x.sty''], allfiles = [''x.sty'']\<rparr>
           ''./zzz:'')
        [''a.sty'', '''']
      = \<lparr>lsRdb = [], pkg = None, pkgfiles = [], allfiles = [''x.sty'']\<rparr>"
    by simp
  show ?thesis
    by (rule conjI [OF h1 conjI [OF 1 2]])
qed

text \<open>
  Claim C3 says that every directory block whose header line ends in \<open>:\<close> and starts
  with \<open>./\<close> resets the accumulator and sets the current package to the innermost
  path segment that is a key of the catalogue; the blocks under the top-level \<open>doc\<close>
  and \<open>source\<close> are set aside before. The loop sets them aside by testing whether the
  line starts with the characters \<open>./doc\<close> or \<open>./source\<close>, so it also skips the
  header \<open>./doctools:\<close>, whose only segment is \<open>doctools\<close>, a key of the catalogue:
  the package is not set and the file \<open>doctools.sty\<close> of the block is not collected,
  while the same block under \<open>./tex/doctools:\<close> is collected for \<open>doctools\<close>.
\<close>

theorem doctools_header_skipped:
  "opens_block (rstrip_nl ''./doctools:'')
   \<and> path_parts (butlast (rstrip_nl ''./doctools:'')) = [''doctools'']
   \<and> find_pkg [''doctools''] (rstrip_nl ''./doctools:'') = Some ''doctools''
   \<and> step [''doctools''] init_state ''./doctools:'' = init_state
   \<and> load_texmfbd [''./doctools:'', ''doctools.sty'', '''']
        [(''doctools'', \<lparr>command = ''doctools'', detail = ''Tools for documentation'',
            documentation = ''https://ctan.org/pkg/doctools''\<rparr>)] = ([], [])
   \<and> load_texmfbd [''./tex/doctools:'', ''doctools.sty'', '''']
        [(''doctools'', \<lparr>command = ''doctools'', detail = ''Tools for documentation'',
            documentation = ''https://ctan.org/pkg/doctools''\<rparr>)]
      = ([(''doctools'', [''doctools.sty''])], [''doctools.sty''])
   \<and> main_tables [\<lparr>key = ''doctools'', caption = ''Tools for documentation''\<rparr>]
        [''./doctools:'', ''doctools.sty'', ''''] [] = ([], [])"
  by code_simp

text \<open>
  Claim C4. A block whose header matches no key of the catalogue contributes nothing:
  after the header and the lines that follow it, up to the next header, the package file
  map and the list of all files are what they were before the block, and the result of
  the parser is the one it gives when those lines are deleted from the index. For every
  line processed, when the current package after the header test is none, neither the
  package file map nor the list of all files changes.
\<close>

theorem unmatched_block_contributes_nothing:
  "(block_header h \<and> find_pkg ks (rstrip_nl h) = None \<and> (\<forall>l \<in> set body. \<not> block_header l) \<longrightarrow>
      run ks st (h # body) = st\<lparr>pkg := None, pkgfiles := []\<rparr>)
   \<and> (block_header h \<and> find_pkg (map fst ctanDict) (rstrip_nl h) = None
        \<and> (\<forall>l \<in> set body. \<not> block_header l) \<longrightarrow>
      load_texmfbd (pre @ h # body @ post) ctanDict = load_texmfbd (pre @ h # post) ctanDict)
   \<and> ((if block_header raw then find_pkg ks (rstrip_nl raw) else pkg st) = None \<longrightarrow>
      lsRdb (step ks st raw) = lsRdb st \<and> allfiles (step ks st raw) = allfiles st)"
proof -
  have 1: "block_header h \<and> find_pkg ks (rstrip_nl h) = None
        \<and> (\<forall>l \<in> set body. \<not> block_header l) \<longrightarrow>
      run ks st (h # body) = st\<lparr>pkg := None, pkgfiles := []\<rparr>"
    by (simp add: run_unmatched_block)
  have 2: "block_header h \<and> find_pkg (map fst ctanDict) (rstrip_nl h) = None
        \<and> (\<forall>l \<in> set body. \<not> block_header l) \<longrightarrow>
      load_texmfbd (pre @ h # body @ post) ctanDict = load_texmfbd (pre @ h # post) ctanDict"
  proof
    let ?ks = "map fst ctanDict"
    let ?s = "run ?ks init_state pre"
    assume a: "block_header h \<and> find_pkg ?ks (rstrip_nl h) = None
        \<and> (\<forall>l \<in> set body. \<not> block_header l)"
    then have "run ?ks ?s (h # body) = ?s\<lparr>pkg := None, pkgfiles := []\<rparr>"
      by (intro run_unmatched_block) simp_all
    moreover from a have "run ?ks ?s (h # []) = ?s\<lparr>pkg := None, pkgfiles := []\<rparr>"
      by (intro run_unmatched_block) simp_all
    ultimately have "run ?ks ?s (h # body) = run ?ks ?s [h]"
      by simp
    then have "run ?ks init_state (pre @ (h # body) @ post) = run ?ks init_state (pre @ [h] @ post)"
      by (simp only: run_append)
    then show "load_texmfbd (pre @ h # body @ post) ctanDict = load_texmfbd (pre @ h # post) ctanDict"
      by (simp add: load_texmfbd_run)
  qed
  have 3: "(if block_header raw then find_pkg ks (rstrip_nl raw) else pkg st) = None \<longrightarrow>
      lsRdb (step ks st raw) = lsRdb st \<and> allfiles (step ks st raw) = allfiles st"
    using step_gated by blast
  show ?thesis
    by (rule conjI [OF 1 conjI [OF 2 3]])
qed

theorem unmatched_block_contributes_nothing_witness:
  "load_texmfbd [''./foo:'', ''foo.sty'', '''', ''./zzz:'', ''a.sty'', ''b.cls'', '''']
       [(''foo'', \<lparr>command = ''foo'', detail = ''Foo package'',
           documentation = ''https://ctan.org/pkg/foo''\<rparr>)]
     = ([(''foo'', [''foo.sty''])], [''foo.sty''])
   \<and> allfiles (step [''foo'']
         \<lparr>lsRdb = [], pkg = None, pkgfiles = [], allfiles = [''foo.sty'']\<rparr> ''a.sty'')
       = [''foo.sty'']"
proof -
  let ?cd = "[(''foo'', \<lparr>command = ''foo'', detail = ''Foo package'',
           documentation = ''https://ctan.org/pkg/foo''\<rparr>)]"
  have h: "block_header ''./zzz:'' \<and> find_pkg (map fst ?cd) (rstrip_nl ''./zzz:'') = None
      \<and> (\<forall>l \<in> set [''a.sty'', ''b.cls'']. \<not> block_header l)"
    by code_simp
  have "load_texmfbd ([''./foo:'', ''foo.sty'', ''''] @ ''./zzz:'' # [''a.sty'', ''b.cls''] @ ['''']) ?cd
      = load_texmfbd ([''./foo:'', ''foo.sty'', ''''] @ ''./zzz:'' # ['''']) ?cd"
    using unmatched_block_contributes_nothing [where h = "''./zzz:''" and ctanDict = ?cd
        and body = "[''a.sty'', ''b.cls'']" and pre = "[''./foo:'', ''foo.sty'', '''']"
        and post = "['''']" and ks = "[]" and st = init_state and raw = "''''",
        THEN conjunct2, THEN conjunct1] h
    by (rule mp)
  moreover have "load_texmfbd ([''./foo:'', ''foo.sty'', ''''] @ ''./zzz:'' # ['''']) ?cd
      = ([(''foo'', [''foo.sty''])], [''foo.sty''])"
    by code_simp
  ultimately have 1: "load_texmfbd [''./foo:'', ''foo.sty'', '''', ''./zzz:'', ''a.sty'', ''b.cls'', ''''] ?cd
     = ([(''foo'', [''foo.sty''])], [''foo.sty''])"
    by simp
  have g: "(if block_header ''a.sty'' then find_pkg [''foo''] (rstrip_nl ''a.sty'')
       else pkg \<lparr>lsRdb = [], pkg = None, pkgfiles = [], allfiles = [''foo.sty'']\<rparr>) = None"
    by code_simp
  have "lsRdb (step [''foo'']
         \<lparr>lsRdb = [], pkg = None, pkgfiles = [], allfiles = [''foo.sty'']\<rparr> ''a.sty'')
        = lsRdb \<lparr>lsRdb = [], pkg = None, pkgfiles = [], allfiles = [''foo.sty'']\<rparr>
     \<and> allfiles (step [''foo'']
         \<lparr>lsRdb = [], pkg = None, pkgfiles = [], allfiles = [''foo.sty'']\<rparr> ''a.sty'')
        = allfiles \<lparr>lsRdb = [], pkg = None, pkgfiles = [], allfiles = [''foo.sty'']\<rparr>"
    using unmatched_block_contributes_nothing [where raw = "''a.sty''" and ks = "[''foo'']"
        and st = "\<lparr>lsRdb = [], pkg = None, pkgfiles = [], allfiles = [''foo.sty'']\<rparr>"
        and h = "''''" and body = "[]" and pre = "[]" and post = "[]" and ctanDict = "[]",
        THEN conjunct2, THEN conjunct2] g
    by (rule mp)
  then have 2: "allfiles (step [''foo'']
         \<lparr>lsRdb = [], pkg = None, pkgfiles = [], allfiles = [''foo.sty'']\<rparr> ''a.sty'')
       = [''foo.sty'']"
    by simp
  from 1 2 show ?thesis by (rule conjI)
qed

lemma startswith_prefix: "startswith l (a @ b) \<Longrightarrow> startswith l a"
proof -
  assume "startswith l (a @ b)"
  then have "take (length a + length b) l = a @ b"
    by (simp add: startswith_def)
  then have "take (length a) (take (length a + length b) l) = a"
    by simp
  then show "startswith l a"
    by (simp add: startswith_def min_def)
qed

lemma doc_source_skipped:
  "startswith l ''./doc/'' \<or> l = ''./doc:'' \<or> startswith l ''./source/'' \<or> l = ''./source:''
     \<Longrightarrow> skipped l"
proof -
  have a: "startswith l ''./doc/'' \<Longrightarrow> startswith l ''./doc''"
    using startswith_prefix [of l "''./doc''" "''/''"] by simp
  have b: "startswith l ''./source/'' \<Longrightarrow> startswith l ''./source''"
    using startswith_prefix [of l "''./source''" "''/''"] by simp
  have c: "startswith ''./doc:'' ''./doc''" and d: "startswith ''./source:'' ''./source''"
    by (simp_all add: startswith_def)
  assume "startswith l ''./doc/'' \<or> l = ''./doc:'' \<or> startswith l ''./source/'' \<or> l = ''./source:''"
  with a b c d show "skipped l"
    unfolding skipped_def by blast
qed

text \<open>
  Claim C5. The parser ignores every block whose directory is under the top-level
  \<open>doc\<close> or \<open>source\<close>. The header of such a block starts with \<open>./doc\<close> or
  \<open>./source\<close> and is skipped: it switches no package, empties no accumulator and
  collects nothing. No package is active where a block begins, at the start of the index
  and after the blank line that closes the block before it, so the lines of the block
  leave the state unchanged: deleting the block from the index, whether it comes first
  or after a blank line, does not change the result of the parser. An index in which
  every header line is of this kind gives an empty package file map and an empty list of
  all files.
\<close>

theorem skipped_block_ignored:
  "(skipped (rstrip_nl h) \<longrightarrow> step ks st h = st)
   \<and> (skipped (rstrip_nl h) \<and> pkg st = None \<and> (\<forall>l \<in> set body. \<not> block_header l) \<longrightarrow>
        run ks st (h # body) = st)
   \<and> (rstrip_nl raw = '''' \<longrightarrow> pkg (step ks st raw) = None)
   \<and> ((\<forall>l \<in> set lsR. opens_block (rstrip_nl l) \<longrightarrow> skipped (rstrip_nl l)) \<longrightarrow>
        load_texmfbd lsR ctanDict = ([], []))
   \<and> (startswith l ''./doc/'' \<or> l = ''./doc:'' \<or> startswith l ''./source/'' \<or> l = ''./source:''
        \<longrightarrow> skipped l)
   \<and> (skipped (rstrip_nl h) \<and> (\<forall>l \<in> set body. \<not> block_header l) \<and> rstrip_nl b = '''' \<longrightarrow>
        load_texmfbd (pre @ b # h # body @ post) ctanDict = load_texmfbd (pre @ b # post) ctanDict)
   \<and> (skipped (rstrip_nl h) \<and> (\<forall>l \<in> set body. \<not> block_header l) \<longrightarrow>
        load_texmfbd (h # body @ post) ctanDict = load_texmfbd post ctanDict)"
proof -
  have blk: "\<And>s :: pstate. skipped (rstrip_nl h) \<and> pkg s = None \<and> (\<forall>l \<in> set body. \<not> block_header l)
      \<Longrightarrow> run (map fst ctanDict) s (h # body) = s"
  proof -
    fix s :: pstate
    assume a: "skipped (rstrip_nl h) \<and> pkg s = None \<and> (\<forall>l \<in> set body. \<not> block_header l)"
    then have "step (map fst ctanDict) s h = s" by (simp add: step_skipped)
    moreover from a have "run (map fst ctanDict) s body = s" by (intro run_idle) simp_all
    ultimately show "run (map fst ctanDict) s (h # body) = s" by (simp add: run_Cons)
  qed
  have 1: "skipped (rstrip_nl h) \<longrightarrow> step ks st h = st"
    by (simp add: step_skipped)
  have 2: "skipped (rstrip_nl h) \<and> pkg st = None \<and> (\<forall>l \<in> set body. \<not> block_header l) \<longrightarrow>
        run ks st (h # body) = st"
  proof
    assume a: "skipped (rstrip_nl h) \<and> pkg st = None \<and> (\<forall>l \<in> set body. \<not> block_header l)"
    then have "step ks st h = st" by (simp add: step_skipped)
    moreover from a have "run ks st body = st" by (intro run_idle) simp_all
    ultimately show "run ks st (h # body) = st" by (simp add: run_Cons)
  qed
  have b3: "\<And>s r. rstrip_nl r = '''' \<Longrightarrow> pkg (step (map fst ctanDict) s r) = None"
  proof -
    fix s r
    assume "rstrip_nl r = ''''"
    then show "pkg (step (map fst ctanDict) s r) = None"
      by (cases "pkg s") (simp_all add: step_blank)
  qed
  have 3: "rstrip_nl raw = '''' \<longrightarrow> pkg (step ks st raw) = None"
    by (cases "pkg st") (simp_all add: step_blank)
  have 4: "(\<forall>l \<in> set lsR. opens_block (rstrip_nl l) \<longrightarrow> skipped (rstrip_nl l)) \<longrightarrow>
        load_texmfbd lsR ctanDict = ([], [])"
  proof
    assume "\<forall>l \<in> set lsR. opens_block (rstrip_nl l) \<longrightarrow> skipped (rstrip_nl l)"
    then have "\<forall>l \<in> set lsR. \<not> block_header l"
      by (auto simp: block_header_def)
    then have "run (map fst ctanDict) init_state lsR = init_state"
      by (intro run_idle) (simp_all add: init_state_def)
    then show "load_texmfbd lsR ctanDict = ([], [])"
      by (simp add: load_texmfbd_run init_state_def)
  qed
  have 5: "startswith l ''./doc/'' \<or> l = ''./doc:'' \<or> startswith l ''./source/'' \<or> l = ''./source:''
        \<longrightarrow> skipped l"
    using doc_source_skipped by blast
  have 6: "skipped (rstrip_nl h) \<and> (\<forall>l \<in> set body. \<not> block_header l) \<and> rstrip_nl b = '''' \<longrightarrow>
        load_texmfbd (pre @ b # h # body @ post) ctanDict = load_texmfbd (pre @ b # post) ctanDict"
  proof
    let ?ks = "map fst ctanDict"
    let ?s = "step ?ks (run ?ks init_state pre) b"
    assume a: "skipped (rstrip_nl h) \<and> (\<forall>l \<in> set body. \<not> block_header l) \<and> rstrip_nl b = ''''"
    then have "pkg ?s = None" by (simp add: b3)
    with a have "run ?ks ?s (h # body) = ?s" by (intro blk) simp
    moreover have "run ?ks init_state (pre @ [b] @ (h # body) @ post)
        = run ?ks (run ?ks ?s (h # body)) post"
      by (simp only: run_append run_Cons run_Nil)
    moreover have "run ?ks init_state (pre @ [b] @ post) = run ?ks ?s post"
      by (simp only: run_append run_Cons run_Nil)
    ultimately have "run ?ks init_state (pre @ [b] @ (h # body) @ post)
        = run ?ks init_state (pre @ [b] @ post)"
      by simp
    then show "load_texmfbd (pre @ b # h # body @ post) ctanDict
        = load_texmfbd (pre @ b # post) ctanDict"
      by (simp add: load_texmfbd_run)
  qed
  have 7: "skipped (rstrip_nl h) \<and> (\<forall>l \<in> set body. \<not> block_header l) \<longrightarrow>
        load_texmfbd (h # body @ post) ctanDict = load_texmfbd post ctanDict"
  proof
    let ?ks = "map fst ctanDict"
    assume a: "skipped (rstrip_nl h) \<and> (\<forall>l \<in> set body. \<not> block_header l)"
    have "pkg init_state = None" by (simp add: init_state_def)
    with a have "run ?ks init_state (h # body) = init_state" by (intro blk) simp
    moreover have "run ?ks init_state ((h # body) @ post)
        = run ?ks (run ?ks init_state (h # body)) post"
      by (simp only: run_append)
    ultimately have "run ?ks init_state ((h # body) @ post) = run ?ks init_state post"
      by simp
    then show "load_texmfbd (h # body @ post) ctanDict = load_texmfbd post ctanDict"
      by (simp add: load_texmfbd_run)
  qed
  show ?thesis
    by (rule conjI [OF 1 conjI [OF 2 conjI [OF 3 conjI [OF 4 conjI [OF 5 conjI [OF 6 7]]]]]])
qed

theorem skipped_block_ignored_witness:
  "run [''foo'']
      \<lparr>lsRdb = [(''foo'', [''foo.sty''])], pkg = None, pkgfiles = [''foo.sty''],
        allfiles = [''foo.sty'']\<rparr>
      [''./doc/foo:'', ''manual.sty'', ''foo.pdf'', '''']
     = \<lparr>lsRdb = [(''foo'', [''foo.sty''])], pkg = None, pkgfiles = [''foo.sty''],
        allfiles = [''foo.sty'']\<rparr>
   \<and> load_texmfbd [''./doc/foo:'', ''foo.sty'', '''', ''./source/latex/foo:'', ''foo.sty'', '''']
       [(''foo'', \<lparr>command = ''foo'', detail = ''Foo package'',
           documentation = ''https://ctan.org/pkg/foo''\<rparr>)] = ([], [])
   \<and> load_texmfbd
       [''./foo:'', ''foo.sty'', '''', ''./doc/foo:'', ''manual.sty'', ''foo.pdf'', '''',
        ''./tex/foo:'', ''foo.def'', '''']
       [(''foo'', \<lparr>command = ''foo'', detail = ''Foo package'',
           documentation = ''https://ctan.org/pkg/foo''\<rparr>)]
     = ([(''foo'', [''foo.sty'', ''foo.def''])], [''foo.sty'', ''foo.def''])
   \<and> load_texmfbd [''./source/foo:'', ''foo.sty'', '''', ''./foo:'', ''foo.cls'', '''']
       [(''foo'', \<lparr>command = ''foo'', detail = ''Foo package'',
           documentation = ''https://ctan.org/pkg/foo''\<rparr>)]
     = ([(''foo'', [''foo.cls''])], [''foo.cls''])"
proof -
  let ?cd = "[(''foo'', \<lparr>command = ''foo'', detail = ''Foo package'',
           documentation = ''https://ctan.org/pkg/foo''\<rparr>)]"
  let ?st = "\<lparr>lsRdb = [(''foo'', [''foo.sty''])], pkg = None, pkgfiles = [''foo.sty''],
        allfiles = [''foo.sty'']\<rparr>"
  have a: "skipped (rstrip_nl ''./doc/foo:'') \<and> pkg ?st = None
      \<and> (\<forall>l \<in> set [''manual.sty'', ''foo.pdf'', '''']. \<not> block_header l)"
    by code_simp
  have 1: "run [''foo''] ?st (''./doc/foo:'' # [''manual.sty'', ''foo.pdf'', '''']) = ?st"
    using skipped_block_ignored [where h = "''./doc/foo:''" and st = ?st and ks = "[''foo'']"
        and body = "[''manual.sty'', ''foo.pdf'', '''']" and raw = "''''" and lsR = "[]"
        and ctanDict = "[]" and l = "''''" and b = "''''" and pre = "[]" and post = "[]",
        THEN conjunct2, THEN conjunct1] a
    by (rule mp)
  have b: "\<forall>l \<in> set [''./doc/foo:'', ''foo.sty'', '''', ''./source/latex/foo:'', ''foo.sty'', ''''].
      opens_block (rstrip_nl l) \<longrightarrow> skipped (rstrip_nl l)"
    by code_simp
  have 2: "load_texmfbd [''./doc/foo:'', ''foo.sty'', '''', ''./source/latex/foo:'', ''foo.sty'', '''']
       ?cd = ([], [])"
    using skipped_block_ignored [where h = "''''" and st = ?st and ks = "[]"
        and body = "[]" and raw = "''''"
        and lsR = "[''./doc/foo:'', ''foo.sty'', '''', ''./source/latex/foo:'', ''foo.sty'', '''']"
        and ctanDict = ?cd and l = "''''" and b = "''''" and pre = "[]" and post = "[]",
        THEN conjunct2, THEN conjunct2, THEN conjunct2, THEN conjunct1] b
    by (rule mp)
  have c: "skipped (rstrip_nl ''./doc/foo:'')
      \<and> (\<forall>l \<in> set [''manual.sty'', ''foo.pdf'', '''']. \<not> block_header l)
      \<and> rstrip_nl '''' = ''''"
    by code_simp
  have "load_texmfbd ([''./foo:'', ''foo.sty''] @ '''' # ''./doc/foo:''
          # [''manual.sty'', ''foo.pdf'', ''''] @ [''./tex/foo:'', ''foo.def'', '''']) ?cd
      = load_texmfbd ([''./foo:'', ''foo.sty''] @ '''' # [''./tex/foo:'', ''foo.def'', '''']) ?cd"
    using skipped_block_ignored [where h = "''./doc/foo:''" and st = ?st and ks = "[]"
        and body = "[''manual.sty'', ''foo.pdf'', '''']" and raw = "''''" and lsR = "[]"
        and ctanDict = ?cd and l = "''''" and b = "''''" and pre = "[''./foo:'', ''foo.sty'']"
        and post = "[''./tex/foo:'', ''foo.def'', '''']",
        THEN conjunct2, THEN conjunct2, THEN conjunct2, THEN conjunct2, THEN conjunct2,
        THEN conjunct1] c
    by (rule mp)
  moreover have "load_texmfbd ([''./foo:'', ''foo.sty''] @ '''' # [''./tex/foo:'', ''foo.def'', '''']) ?cd
      = ([(''foo'', [''foo.sty'', ''foo.def''])], [''foo.sty'', ''foo.def''])"
    by code_simp
  ultimately have 3: "load_texmfbd
       [''./foo:'', ''foo.sty'', '''', ''./doc/foo:'', ''manual.sty'', ''foo.pdf'', '''',
        ''./tex/foo:'', ''foo.def'', ''''] ?cd
     = ([(''foo'', [''foo.sty'', ''foo.def''])], [''foo.sty'', ''foo.def''])"
    by simp
  have d: "skipped (rstrip_nl ''./source/foo:'')
      \<and> (\<forall>l \<in> set [''foo.sty'', '''']. \<not> block_header l)"
    by code_simp
  have "load_texmfbd (''./source/foo:'' # [''foo.sty'', ''''] @ [''./foo:'', ''foo.cls'', '''']) ?cd
      = load_texmfbd [''./foo:'', ''foo.cls'', ''''] ?cd"
    using skipped_block_ignored [where h = "''./source/foo:''" and st = ?st and ks = "[]"
        and body = "[''foo.sty'', '''']" and raw = "''''" and lsR = "[]"
        and ctanDict = ?cd and l = "''''" and b = "''''" and pre = "[]"
        and post = "[''./foo:'', ''foo.cls'', '''']",
        THEN conjunct2, THEN conjunct2, THEN conjunct2, THEN conjunct2, THEN conjunct2,
        THEN conjunct2] d
    by (rule mp)
  moreover have "load_texmfbd [''./foo:'', ''foo.cls'', ''''] ?cd
      = ([(''foo'', [''foo.cls''])], [''foo.cls''])"
    by code_simp
  ultimately have 4: "load_texmfbd [''./source/foo:'', ''foo.sty'', '''', ''./foo:'', ''foo.cls'', '''']
       ?cd = ([(''foo'', [''foo.cls''])], [''foo.cls''])"
    by simp
  show ?thesis
    by (rule conjI [OF 1 conjI [OF 2 conjI [OF 3 4]]])
qed

text \<open>
  Claim C8. The files accumulated for a block enter the package file map only when a
  blank line closes the block. For a block whose header resolved a package and whose
  lines are file lines (not blank, no header): when the input ends there, the package
  file map is the one of the input before the block, while the block's relevant file
  names are at the end of the list of all files; when a new header follows at once, the
  package file map of the whole index is the one of the index without the block, while
  the names were appended to the list of all files; and a blank line after the block
  stores the accumulated names under the package.
\<close>

theorem pending_block_discarded:
  assumes "block_header h" and "find_pkg (map fst ctanDict) (rstrip_nl h) = Some p"
    and "\<forall>l \<in> set body. rstrip_nl l \<noteq> '''' \<and> \<not> block_header l"
  shows "load_texmfbd (pre @ h # body) ctanDict =
           (fst (load_texmfbd pre ctanDict), snd (load_texmfbd pre ctanDict) @ collected body)
     \<and> (block_header h2 \<longrightarrow>
           fst (load_texmfbd (pre @ h # body @ h2 # post) ctanDict) =
             fst (load_texmfbd (pre @ h2 # post) ctanDict)
         \<and> allfiles (run (map fst ctanDict) init_state (pre @ h # body @ [h2])) =
             snd (load_texmfbd pre ctanDict) @ collected body)
     \<and> (rstrip_nl b = '''' \<longrightarrow>
           run (map fst ctanDict) st (h # body @ [b]) =
             st\<lparr>lsRdb := (if collected body \<noteq> []
                           then extend_db p (collected body) (lsRdb st) else lsRdb st),
                pkg := None, pkgfiles := collected body,
                allfiles := allfiles st @ collected body\<rparr>)"
proof -
  let ?ks = "map fst ctanDict"
  let ?s = "run ?ks init_state pre"
  have blk: "\<And>st. run ?ks st (h # body) =
      st\<lparr>pkg := Some p, pkgfiles := collected body, allfiles := allfiles st @ collected body\<rparr>"
    using assms by (rule run_matched_block)
  have "run ?ks init_state (pre @ h # body) =
      ?s\<lparr>pkg := Some p, pkgfiles := collected body, allfiles := allfiles ?s @ collected body\<rparr>"
    by (simp only: run_append blk)
  then have 1: "load_texmfbd (pre @ h # body) ctanDict =
           (fst (load_texmfbd pre ctanDict), snd (load_texmfbd pre ctanDict) @ collected body)"
    by (simp add: load_texmfbd_run)
  have 2: "block_header h2 \<longrightarrow>
           fst (load_texmfbd (pre @ h # body @ h2 # post) ctanDict) =
             fst (load_texmfbd (pre @ h2 # post) ctanDict)
         \<and> allfiles (run (map fst ctanDict) init_state (pre @ h # body @ [h2])) =
             snd (load_texmfbd pre ctanDict) @ collected body"
  proof
    assume h2: "block_header h2"
    define m where "m = run ?ks ?s (h # body)"
    let ?b = "step ?ks ?s h2"
    have m: "lsRdb m = lsRdb ?s" "allfiles m = allfiles ?s @ collected body"
      by (simp_all add: m_def blk)
    have a: "step ?ks m h2 = m\<lparr>pkg := find_pkg ?ks (rstrip_nl h2), pkgfiles := []\<rparr>"
      using h2 by (rule step_header)
    have b: "?b = ?s\<lparr>pkg := find_pkg ?ks (rstrip_nl h2), pkgfiles := []\<rparr>"
      using h2 by (rule step_header)
    have "lsRdb (step ?ks m h2) = lsRdb ?b" "pkg (step ?ks m h2) = pkg ?b"
        "pkgfiles (step ?ks m h2) = pkgfiles ?b"
      by (simp_all add: a b m)
    then have "lsRdb (run ?ks (step ?ks m h2) post) = lsRdb (run ?ks ?b post)"
      by (rule run_core)
    moreover have "run ?ks init_state (pre @ (h # body) @ h2 # post) = run ?ks (step ?ks m h2) post"
      by (simp only: run_append run_Cons m_def)
    moreover have "run ?ks init_state (pre @ h2 # post) = run ?ks ?b post"
      by (simp only: run_append run_Cons)
    ultimately have x: "fst (load_texmfbd (pre @ h # body @ h2 # post) ctanDict) =
             fst (load_texmfbd (pre @ h2 # post) ctanDict)"
      by (simp add: load_texmfbd_run)
    have "run ?ks init_state (pre @ (h # body) @ [h2]) = step ?ks m h2"
      by (simp only: run_append run_Cons run_Nil m_def)
    then have y: "allfiles (run (map fst ctanDict) init_state (pre @ h # body @ [h2])) =
             snd (load_texmfbd pre ctanDict) @ collected body"
      by (simp add: a m load_texmfbd_run)
    from x y show "fst (load_texmfbd (pre @ h # body @ h2 # post) ctanDict) =
             fst (load_texmfbd (pre @ h2 # post) ctanDict)
         \<and> allfiles (run (map fst ctanDict) init_state (pre @ h # body @ [h2])) =
             snd (load_texmfbd pre ctanDict) @ collected body"
      by (rule conjI)
  qed
  have 3: "rstrip_nl b = '''' \<longrightarrow>
           run (map fst ctanDict) st (h # body @ [b]) =
             st\<lparr>lsRdb := (if collected body \<noteq> []
                           then extend_db p (collected body) (lsRdb st) else lsRdb st),
                pkg := None, pkgfiles := collected body,
                allfiles := allfiles st @ collected body\<rparr>"
  proof
    assume e: "rstrip_nl b = ''''"
    have "run ?ks st ((h # body) @ [b]) = step ?ks (run ?ks st (h # body)) b"
      by (simp only: run_append run_Cons run_Nil)
    then show "run (map fst ctanDict) st (h # body @ [b]) =
             st\<lparr>lsRdb := (if collected body \<noteq> []
                           then extend_db p (collected body) (lsRdb st) else lsRdb st),
                pkg := None, pkgfiles := collected body,
                allfiles := allfiles st @ collected body\<rparr>"
      by (simp add: blk step_blank [OF e])
  qed
  show ?thesis
    by (rule conjI [OF 1 conjI [OF 2 3]])
qed

theorem pending_block_discarded_witness:
  "load_texmfbd [''./foo:'', ''foo.sty'', ''readme.txt'', ''foo.cls'']
       [(''foo'', \<lparr>command = ''foo'', detail = ''Foo package'',
           documentation = ''https://ctan.org/pkg/foo''\<rparr>)]
     = ([], [''foo.sty'', ''foo.cls''])
   \<and> fst (load_texmfbd
        [''./foo:'', ''foo.sty'', ''readme.txt'', ''foo.cls'', ''./tex/foo:'', ''foo.def'', '''']
        [(''foo'', \<lparr>command = ''foo'', detail = ''Foo package'',
           documentation = ''https://ctan.org/pkg/foo''\<rparr>)])
     = [(''foo'', [''foo.def''])]
   \<and> run [''foo''] init_state [''./foo:'', ''foo.sty'', ''readme.txt'', ''foo.cls'', '''']
     = \<lparr>lsRdb = [(''foo'', [''foo.sty'', ''foo.cls''])], pkg = None,
        pkgfiles = [''foo.sty'', ''foo.cls''], allfiles = [''foo.sty'', ''foo.cls'']\<rparr>"
proof -
  let ?cd = "[(''foo'', \<lparr>command = ''foo'', detail = ''Foo package'',
           documentation = ''https://ctan.org/pkg/foo''\<rparr>)]"
  let ?body = "[''foo.sty'', ''readme.txt'', ''foo.cls'']"
  have h: "block_header ''./foo:''" by code_simp
  have f: "find_pkg (map fst ?cd) (rstrip_nl ''./foo:'') = Some ''foo''" by code_simp
  have b: "\<forall>l \<in> set ?body. rstrip_nl l \<noteq> '''' \<and> \<not> block_header l" by code_simp
  have c: "collected ?body = [''foo.sty'', ''foo.cls'']" by code_simp
  have e: "load_texmfbd [] ?cd = ([], [])" by code_simp
  have h2: "block_header ''./tex/foo:''" by code_simp
  have r: "fst (load_texmfbd ([] @ ''./tex/foo:'' # [''foo.def'', '''']) ?cd) = [(''foo'', [''foo.def''])]"
    by code_simp
  have x: "extend_db ''foo'' [''foo.sty'', ''foo.cls''] [] = [(''foo'', [''foo.sty'', ''foo.cls''])]"
    by code_simp
  have k: "map fst ?cd = [''foo'']" by simp
  have bl: "rstrip_nl '''' = ''''" by code_simp
  note t = pending_block_discarded [OF h f b]
  have "load_texmfbd ([] @ ''./foo:'' # ?body) ?cd =
      (fst (load_texmfbd [] ?cd), snd (load_texmfbd [] ?cd) @ collected ?body)"
    by (rule t [where pre = "[]" and ?h2.0 = "''''" and post = "[]" and b = "''''"
          and st = init_state, THEN conjunct1])
  then have 1: "load_texmfbd [''./foo:'', ''foo.sty'', ''readme.txt'', ''foo.cls''] ?cd
     = ([], [''foo.sty'', ''foo.cls''])"
    by (simp add: c e)
  have "fst (load_texmfbd ([] @ ''./foo:'' # ?body @ ''./tex/foo:'' # [''foo.def'', '''']) ?cd) =
             fst (load_texmfbd ([] @ ''./tex/foo:'' # [''foo.def'', '''']) ?cd)
     \<and> allfiles (run (map fst ?cd) init_state ([] @ ''./foo:'' # ?body @ [''./tex/foo:''])) =
             snd (load_texmfbd [] ?cd) @ collected ?body"
    using t [where pre = "[]" and ?h2.0 = "''./tex/foo:''" and post = "[''foo.def'', '''']"
          and b = "''''" and st = init_state, THEN conjunct2, THEN conjunct1] h2
    by (rule mp)
  then have "fst (load_texmfbd ([] @ ''./foo:'' # ?body @ ''./tex/foo:'' # [''foo.def'', '''']) ?cd) =
             [(''foo'', [''foo.def''])]"
    by (simp only: r)
  then have 2: "fst (load_texmfbd
        [''./foo:'', ''foo.sty'', ''readme.txt'', ''foo.cls'', ''./tex/foo:'', ''foo.def'', '''']
        ?cd) = [(''foo'', [''foo.def''])]"
    by simp
  have "run (map fst ?cd) init_state (''./foo:'' # ?body @ ['''']) =
             init_state\<lparr>lsRdb := (if collected ?body \<noteq> []
                           then extend_db ''foo'' (collected ?body) (lsRdb init_state)
                           else lsRdb init_state),
                pkg := None, pkgfiles := collected ?body,
                allfiles := allfiles init_state @ collected ?body\<rparr>"
    using t [where pre = "[]" and ?h2.0 = "''''" and post = "[]" and b = "''''"
          and st = init_state, THEN conjunct2, THEN conjunct2] bl
    by (rule mp)
  then have 3: "run [''foo''] init_state [''./foo:'', ''foo.sty'', ''readme.txt'', ''foo.cls'', '''']
     = \<lparr>lsRdb = [(''foo'', [''foo.sty'', ''foo.cls''])], pkg = None,
        pkgfiles = [''foo.sty'', ''foo.cls''], allfiles = [''foo.sty'', ''foo.cls'']\<rparr>"
    by (simp add: c x k init_state_def)
  show ?thesis
    by (rule conjI [OF 1 conjI [OF 2 3]])
qed

section \<open>The case-insensitive fallback of the resolver\<close>

lemma lower_append: "lower (a @ b) = lower a @ lower b"
  by (simp add: lower_def)

lemma lower_sty: "lower ''.sty'' = ''.sty''"
  by code_simp

lemma lower_char_idem: "lower_char (lower_char c) = lower_char c"
proof -
  have r: "of_char c < (256 :: nat)" by simp
  have e: "\<And>n. n < 256 \<Longrightarrow> (of_char (char_of (n :: nat)) :: nat) = n"
    by simp
  show ?thesis
  proof (cases "(65 \<le> (of_char c :: nat) \<and> (of_char c :: nat) \<le> 90)
       \<or> (192 \<le> (of_char c :: nat) \<and> (of_char c :: nat) \<le> 222 \<and> (of_char c :: nat) \<noteq> 215)")
    case True
    then have l: "lower_char c = char_of ((of_char c :: nat) + 32)"
      by (simp add: lower_char_def Let_def)
    from True have "(of_char c :: nat) + 32 < 256" by auto
    from e [OF this] have v: "(of_char (lower_char c) :: nat) = of_char c + 32"
      by (simp only: l)
    with True have "\<not> ((65 \<le> (of_char (lower_char c) :: nat) \<and> (of_char (lower_char c) :: nat) \<le> 90)
       \<or> (192 \<le> (of_char (lower_char c) :: nat) \<and> (of_char (lower_char c) :: nat) \<le> 222
           \<and> (of_char (lower_char c) :: nat) \<noteq> 215))"
      by auto
    then show ?thesis
      unfolding lower_char_def [of "lower_char c"] Let_def by (simp only: if_False)
  next
    case False
    then have "lower_char c = c"
      by (auto simp: lower_char_def Let_def)
    then show ?thesis by simp
  qed
qed

lemma lower_idem: "lower (lower s) = lower s"
  by (simp add: lower_def lower_char_idem)

text \<open>
  Claim C2, as the code has it. Let \<open>p\<close> be a key of the catalogue such that
  \<open>p.sty\<close> is not in the list of all files, \<open>p\<close> is a key of the package file
  map, and \<open>p.sty\<close> is not among its attributed files. The fallback compares the
  lower-case form of each attributed name with \<open>p.sty\<close> itself. So when \<open>p\<close> has
  no upper-case letter and some attributed name matches \<open>p.sty\<close> case-insensitively,
  the command of the entry of \<open>p\<close> is the stem of the first such name; and when
  \<open>p\<close> has an upper-case letter the fallback resolves nothing and \<open>p\<close> is not a key
  of the package table.
\<close>

theorem fallback_command:
  assumes "p \<in> set (map fst ctanDict)" and "p @ ''.sty'' \<notin> set allsty"
    and "map_of db p = Some files" and "p @ ''.sty'' \<notin> set files"
  shows "(lower p = p \<and> (\<exists>f \<in> set files. lower f = lower (p @ ''.sty'')) \<longrightarrow>
            (\<exists>f e. List.find (\<lambda>f. lower f = lower (p @ ''.sty'')) files = Some f
               \<and> map_of (get_packages db ctanDict allsty) p = Some e
               \<and> command e = path_stem f))
       \<and> (lower p \<noteq> p \<longrightarrow> p \<notin> set (map fst (get_packages db ctanDict allsty)))"
proof -
  from lookup_of_key [OF assms(1)] obtain ce where ce: "map_of ctanDict p = Some ce" ..
  have 1: "lower p = p \<and> (\<exists>f \<in> set files. lower f = lower (p @ ''.sty'')) \<longrightarrow>
            (\<exists>f e. List.find (\<lambda>f. lower f = lower (p @ ''.sty'')) files = Some f
               \<and> map_of (get_packages db ctanDict allsty) p = Some e
               \<and> command e = path_stem f)"
  proof
    assume a: "lower p = p \<and> (\<exists>f \<in> set files. lower f = lower (p @ ''.sty''))"
    then have l: "lower (p @ ''.sty'') = p @ ''.sty''"
      by (simp add: lower_append lower_sty)
    from a have "List.find (\<lambda>f. lower f = lower (p @ ''.sty'')) files \<noteq> None"
      by (auto simp: find_None_iff)
    then obtain f where f: "List.find (\<lambda>f. lower f = lower (p @ ''.sty'')) files = Some f"
      by blast
    then have "List.find (\<lambda>f. lower f = p @ ''.sty'') files = Some f"
      by (simp only: l)
    then have "package2sty p db allsty = Some (path_stem f)"
      using assms(2,3,4) by (simp add: package2sty_def Let_def)
    then have "map_of (get_packages db ctanDict allsty) p = Some (ce\<lparr>command := path_stem f\<rparr>)"
      by (simp add: map_of_get_packages ce)
    with f have "List.find (\<lambda>f. lower f = lower (p @ ''.sty'')) files = Some f
               \<and> map_of (get_packages db ctanDict allsty) p = Some (ce\<lparr>command := path_stem f\<rparr>)
               \<and> command (ce\<lparr>command := path_stem f\<rparr>) = path_stem f"
      by simp
    then show "\<exists>f e. List.find (\<lambda>f. lower f = lower (p @ ''.sty'')) files = Some f
               \<and> map_of (get_packages db ctanDict allsty) p = Some e
               \<and> command e = path_stem f"
      by blast
  qed
  have 2: "lower p \<noteq> p \<longrightarrow> p \<notin> set (map fst (get_packages db ctanDict allsty))"
  proof
    assume n: "lower p \<noteq> p"
    have "\<forall>f \<in> set files. lower f \<noteq> p @ ''.sty''"
    proof
      fix f
      show "lower f \<noteq> p @ ''.sty''"
      proof
        assume e: "lower f = p @ ''.sty''"
        then have "lower (lower f) = lower (p @ ''.sty'')" by simp
        then have "lower f = lower p @ ''.sty''"
          by (simp only: lower_idem lower_append lower_sty)
        with e have "lower p = p" by simp
        with n show False by simp
      qed
    qed
    then have "package2sty p db allsty = None"
      using assms(2,3,4) by (simp add: package2sty_None_iff)
    then have "map_of (get_packages db ctanDict allsty) p = None"
      by (simp add: map_of_get_packages ce)
    then show "p \<notin> set (map fst (get_packages db ctanDict allsty))"
      by (simp add: map_of_eq_None_iff)
  qed
  show ?thesis
    by (rule conjI [OF 1 2])
qed

theorem fallback_command_witness:
  "(\<exists>e. map_of (get_packages
          [(''ieeetran'', [''IEEEtran.cls'', ''IEEEtran.sty'', ''ieeetran.STY''])]
          [(''ieeetran'', \<lparr>command = ''ieeetran'', detail = ''IEEE transactions'',
              documentation = ''https://ctan.org/pkg/ieeetran''\<rparr>)]
          [''IEEEtran.cls'', ''IEEEtran.sty'', ''ieeetran.STY'']) ''ieeetran'' = Some e
        \<and> command e = ''IEEEtran'')
   \<and> ''Foo'' \<notin> set (map fst (get_packages [(''Foo'', [''foo.sty''])]
          [(''Foo'', \<lparr>command = ''Foo'', detail = ''Foo package'',
              documentation = ''https://ctan.org/pkg/Foo''\<rparr>)] [''foo.sty'']))"
proof -
  let ?files = "[''IEEEtran.cls'', ''IEEEtran.sty'', ''ieeetran.STY'']"
  let ?cd = "[(''ieeetran'', \<lparr>command = ''ieeetran'', detail = ''IEEE transactions'',
              documentation = ''https://ctan.org/pkg/ieeetran''\<rparr>)]"
  let ?cf = "[(''Foo'', \<lparr>command = ''Foo'', detail = ''Foo package'',
              documentation = ''https://ctan.org/pkg/Foo''\<rparr>)]"
  have a1: "''ieeetran'' \<in> set (map fst ?cd)" by simp
  have a2: "''ieeetran'' @ ''.sty'' \<notin> set ?files" by simp
  have a3: "map_of [(''ieeetran'', ?files)] ''ieeetran'' = Some ?files" by simp
  have h: "lower ''ieeetran'' = ''ieeetran''
      \<and> (\<exists>f \<in> set ?files. lower f = lower (''ieeetran'' @ ''.sty''))"
    by code_simp
  have fd: "List.find (\<lambda>f. lower f = lower (''ieeetran'' @ ''.sty'')) ?files = Some ''IEEEtran.sty''"
    by code_simp
  have st: "path_stem ''IEEEtran.sty'' = ''IEEEtran''"
    by code_simp
  have "\<exists>f e. List.find (\<lambda>f. lower f = lower (''ieeetran'' @ ''.sty'')) ?files = Some f
               \<and> map_of (get_packages [(''ieeetran'', ?files)] ?cd ?files) ''ieeetran'' = Some e
               \<and> command e = path_stem f"
    using fallback_command [OF a1 a2 a3 a2, THEN conjunct1] h by (rule mp)
  then obtain f e where "List.find (\<lambda>f. lower f = lower (''ieeetran'' @ ''.sty'')) ?files = Some f"
      and e: "map_of (get_packages [(''ieeetran'', ?files)] ?cd ?files) ''ieeetran'' = Some e"
      and c: "command e = path_stem f"
    by blast
  with fd have "f = ''IEEEtran.sty''" by simp
  with c st have "command e = ''IEEEtran''" by simp
  with e have 1: "\<exists>e. map_of (get_packages [(''ieeetran'', ?files)] ?cd ?files) ''ieeetran'' = Some e
        \<and> command e = ''IEEEtran''"
    by blast
  have b1: "''Foo'' \<in> set (map fst ?cf)" by simp
  have b2: "''Foo'' @ ''.sty'' \<notin> set [''foo.sty'']" by simp
  have b3: "map_of [(''Foo'', [''foo.sty''])] ''Foo'' = Some [''foo.sty'']" by simp
  have n: "lower ''Foo'' \<noteq> ''Foo''" by code_simp
  have 2: "''Foo'' \<notin> set (map fst (get_packages [(''Foo'', [''foo.sty''])] ?cf [''foo.sty'']))"
    using fallback_command [OF b1 b2 b3 b2, THEN conjunct2] n by (rule mp)
  from 1 2 show ?thesis by (rule conjI)
qed

text \<open>
  The catalogue key \<open>Foo\<close> with the single attributed file \<open>foo.sty\<close>: the name
  matches \<open>Foo.sty\<close> case-insensitively, but its lower-case form is compared with
  \<open>Foo.sty\<close> as it is, no command is resolved and the package table stays empty.
\<close>

theorem fallback_command_counterexample:
  "load_texmfbd [''./Foo:'', ''foo.sty'', '''']
       [(''Foo'', \<lparr>command = ''Foo'', detail = ''Foo package'',
              documentation = ''https://ctan.org/pkg/Foo''\<rparr>)]
     = ([(''Foo'', [''foo.sty''])], [''foo.sty''])
   \<and> ''Foo'' @ ''.sty'' \<notin> set [''foo.sty'']
   \<and> lower ''foo.sty'' = lower (''Foo'' @ ''.sty'')
   \<and> package2sty ''Foo'' [(''Foo'', [''foo.sty''])] [''foo.sty''] = None
   \<and> get_packages [(''Foo'', [''foo.sty''])]
       [(''Foo'', \<lparr>command = ''Foo'', detail = ''Foo package'',
              documentation = ''https://ctan.org/pkg/Foo''\<rparr>)] [''foo.sty''] = []"
  by code_simp

section \<open>The entries of the two tables\<close>

lemma path_tail_empty: "path_tail '''' = []"
  by (simp add: path_tail_def)

lemma dropWhile_no_sep: "c \<notin> set n \<Longrightarrow> dropWhile (\<lambda>x. x = c) n = n"
  by (cases n) auto

lemma path_name_idem: "path_name (path_name l) = path_name l"
proof (cases "path_tail l")
  case Nil
  then show ?thesis by (simp add: path_name_def path_tail_empty)
next
  case (Cons a as)
  let ?n = "last (path_tail l)"
  from Cons have n: "path_name l = ?n"
    by (simp add: path_name_def)
  from Cons have "?n \<in> set (path_tail l)"
    by simp
  then have m: "?n \<in> set (split_sep (CHR ''/'') (dropWhile (\<lambda>c. c = CHR ''/'') l))"
      and ne: "?n \<noteq> ''''" and nd: "?n \<noteq> ''.''"
    by (simp_all add: path_tail_def)
  from m have ns: "CHR ''/'' \<notin> set ?n"
    by (rule split_sep_no_sep)
  then have "path_tail ?n = [?n]"
    using ne nd by (simp add: path_tail_def dropWhile_no_sep split_sep_single)
  then have "path_name ?n = ?n"
    by (simp add: path_name_def)
  with n show ?thesis by simp
qed

lemma relevant_path_name: "relevant (path_name l) = relevant l"
  by (simp add: relevant_def path_suffix_def path_name_idem)

lemma stored_path_name: "relevant l \<Longrightarrow> stored_name (path_name l)"
  by (simp add: stored_name_def path_name_idem relevant_path_name)

lemma stored_stem_nonempty:
  assumes "stored_name x"
  shows "path_stem x \<noteq> ''''"
proof -
  let ?i = "rfind x (CHR ''.'')"
  from assms have n: "path_name x = x" and r: "relevant x"
    by (simp_all add: stored_name_def)
  from r have "path_suffix x \<in> {''.sty'', ''.def'', ''.cls''}"
    by (simp add: relevant_def)
  then have c: "0 < ?i \<and> ?i < int (length x) - 1"
    by (auto simp: path_suffix_def Let_def n split: if_splits)
  then have "path_stem x = take (nat ?i) x"
    by (simp add: path_stem_def Let_def n)
  moreover from c have "0 < nat ?i" and "0 < length x" by linarith+
  ultimately show ?thesis by auto
qed

lemma not_relevant_sty: "\<not> relevant ''.sty''"
  by code_simp

lemma stored_sty_nonempty: "stored_name (p @ ''.sty'') \<Longrightarrow> p \<noteq> ''''"
  using not_relevant_sty by (auto simp: stored_name_def)

lemma set_update_cases:
  "(k', v') \<in> set (AList.update k v al) \<Longrightarrow> (k' = k \<and> v' = v) \<or> (k', v') \<in> set al"
  by (induction al) (auto split: if_splits)

lemma names_stored_extend:
  assumes "\<forall>(k, fs) \<in> set db. \<forall>x \<in> set fs. stored_name x" and "\<forall>x \<in> set new. stored_name x"
  shows "\<forall>(k, fs) \<in> set (extend_db p new db). \<forall>x \<in> set fs. stored_name x"
proof -
  have old: "\<forall>x \<in> set (case map_of db p of None \<Rightarrow> [] | Some old \<Rightarrow> old). stored_name x"
  proof (cases "map_of db p")
    case None
    then show ?thesis by simp
  next
    case (Some fs)
    then have "(p, fs) \<in> set db" by (rule map_of_SomeD)
    with assms(1) Some show ?thesis by auto
  qed
  show ?thesis
  proof (intro ballI, clarify)
    fix k fs x
    assume m: "(k, fs) \<in> set (extend_db p new db)" and x: "x \<in> set fs"
    from m have "(k = p \<and> fs = (case map_of db p of None \<Rightarrow> [] | Some old \<Rightarrow> old) @ new)
        \<or> (k, fs) \<in> set db"
      unfolding extend_db_def by (rule set_update_cases)
    then show "stored_name x"
      using x old assms by auto
  qed
qed

lemma names_stored_step:
  assumes "names_stored st"
  shows "names_stored (step ks st raw)"
proof (cases "block_header raw")
  case True
  then show ?thesis
    using assms by (simp add: step_header names_stored_def)
next
  case h: False
  show ?thesis
  proof (cases "pkg st")
    case None
    with h assms show ?thesis by (simp add: step_idle)
  next
    case (Some p)
    show ?thesis
    proof (cases "rstrip_nl raw = ''''")
      case True
      have "\<forall>(k, fs) \<in> set (extend_db p (pkgfiles st) (lsRdb st)). \<forall>x \<in> set fs. stored_name x"
        using assms by (intro names_stored_extend) (simp_all add: names_stored_def)
      then show ?thesis
        using assms Some by (simp add: step_blank [OF True] names_stored_def)
    next
      case False
      then show ?thesis
        using assms Some h by (simp add: step_file names_stored_def stored_path_name)
    qed
  qed
qed

lemma names_stored_run: "names_stored st \<Longrightarrow> names_stored (run ks st ls)"
  by (induction ls arbitrary: st) (simp_all add: run_Nil run_Cons names_stored_step)

lemma names_stored_init: "names_stored init_state"
  by (simp add: names_stored_def init_state_def)

lemma load_names:
  assumes "load_texmfbd lsR cd = (db, all)"
  shows "(\<forall>x \<in> set all. stored_name x)
       \<and> (\<forall>fs. map_of db p = Some fs \<longrightarrow> (\<forall>x \<in> set fs. stored_name x))"
proof -
  let ?s = "run (map fst cd) init_state lsR"
  have s: "names_stored ?s"
    by (intro names_stored_run names_stored_init)
  from assms have d: "db = lsRdb ?s" and a: "all = allfiles ?s"
    by (simp_all add: load_texmfbd_run)
  have 1: "\<forall>x \<in> set all. stored_name x"
    using s by (simp add: names_stored_def a)
  have 2: "\<forall>fs. map_of db p = Some fs \<longrightarrow> (\<forall>x \<in> set fs. stored_name x)"
  proof (intro allI impI)
    fix fs
    assume "map_of db p = Some fs"
    then have "(p, fs) \<in> set (lsRdb ?s)"
      unfolding d by (rule map_of_SomeD)
    with s show "\<forall>x \<in> set fs. stored_name x"
      by (auto simp: names_stored_def)
  qed
  from 1 2 show ?thesis by (rule conjI)
qed

lemma package2sty_nonempty:
  assumes "\<forall>x \<in> set all. stored_name x"
    and "\<forall>fs. map_of db p = Some fs \<longrightarrow> (\<forall>x \<in> set fs. stored_name x)"
    and "package2sty p db all = Some b"
  shows "b \<noteq> ''''"
proof (cases "p @ ''.sty'' \<in> set all")
  case True
  with assms(3) have "b = p" by (simp add: package2sty_def)
  moreover from True assms(1) have "p \<noteq> ''''"
    by (auto dest: stored_sty_nonempty)
  ultimately show ?thesis by simp
next
  case False
  with assms(3) obtain fs where fs: "map_of db p = Some fs"
    by (cases "map_of db p") (simp_all add: package2sty_def)
  with assms(2) have st: "\<forall>x \<in> set fs. stored_name x" by simp
  show ?thesis
  proof (cases "p @ ''.sty'' \<in> set fs")
    case True
    with False fs assms(3) have "b = p" by (simp add: package2sty_def)
    moreover from True st have "p \<noteq> ''''"
      by (auto dest: stored_sty_nonempty)
    ultimately show ?thesis by simp
  next
    case n: False
    with False fs assms(3) obtain f
      where f: "List.find (\<lambda>f. lower f = p @ ''.sty'') fs = Some f" and b: "b = path_stem f"
      by (cases "List.find (\<lambda>f. lower f = p @ ''.sty'') fs") (simp_all add: package2sty_def)
    from f have "f \<in> set fs" by (auto dest: find_SomeD)
    with st have "stored_name f" by simp
    then show ?thesis
      unfolding b by (rule stored_stem_nonempty)
  qed
qed

lemma build_entry:
  assumes "map_of (build_ctanDict ctanList) p = Some ce"
  shows "\<exists>x \<in> set ctanList. key x = p \<and> ce = ctan_entry x"
proof -
  from assms obtain y where y: "List.find (\<lambda>x. key x = p) (rev ctanList) = Some y"
      and e: "ce = ctan_entry y"
    by (auto simp: map_of_build_ctanDict split: option.splits)
  from y have "y \<in> set ctanList \<and> key y = p"
    by (auto dest: find_SomeD)
  with e show ?thesis by blast
qed

lemma get_classes_entry:
  assumes "map_of (get_classes all cd) k = Some e"
  shows "(\<exists>c \<in> set all. endswith c ''.cls'' \<and> path_stem c = k) \<and> e = class_entry cd k"
proof -
  have "map_of (get_classes all cd) k =
      (if \<exists>c \<in> set all. endswith c ''.cls'' \<and> path_stem c = k
       then Some (class_entry cd k) else None)"
    unfolding get_classes_def map_of_foldl_add_class by simp
  with assms show ?thesis
    by (simp split: if_splits)
qed

text \<open>
  Claim C9, as the code has it. In every run of the whole pipeline, an entry of the
  package table is either the extras' record for its key, copied unchanged, or an entry
  of the resolver: its command is non-empty, its documentation is the URL of its key
  and its detail is the caption of a catalogue record with that key (empty exactly when
  that caption is). An entry of the class table has its key as command, the key is
  non-empty, and its detail and documentation are empty when the stem has no catalogue
  entry, and the catalogue's otherwise (the documentation then being the non-empty URL).
\<close>

theorem pipeline_entries:
  assumes "main_tables ctanList lsR extras = (package_data, class_data)"
  shows "(map_of package_data p = Some e \<longrightarrow>
            map_of extras p = Some e
            \<or> (command e \<noteq> '''' \<and> documentation e = ''https://ctan.org/pkg/'' @ p
                \<and> (\<exists>x \<in> set ctanList. key x = p \<and> detail e = caption x)))
       \<and> (map_of class_data k = Some e' \<longrightarrow>
            command e' = k \<and> k \<noteq> ''''
            \<and> (case map_of (build_ctanDict ctanList) k of
                  None \<Rightarrow> detail e' = '''' \<and> documentation e' = ''''
                | Some ce \<Rightarrow> detail e' = detail ce
                    \<and> documentation e' = ''https://ctan.org/pkg/'' @ k))"
proof -
  let ?cd = "build_ctanDict ctanList"
  obtain db all where l: "load_texmfbd lsR ?cd = (db, all)"
    by (cases "load_texmfbd lsR ?cd") blast
  from assms have pd: "package_data = add_extra_packages (get_packages db ?cd all) extras"
      and cl: "class_data = get_classes all ?cd"
    by (simp_all add: main_tables_def Let_def l)
  note names = load_names [OF l]
  have 1: "map_of package_data p = Some e \<longrightarrow>
            map_of extras p = Some e
            \<or> (command e \<noteq> '''' \<and> documentation e = ''https://ctan.org/pkg/'' @ p
                \<and> (\<exists>x \<in> set ctanList. key x = p \<and> detail e = caption x))"
  proof
    assume a: "map_of package_data p = Some e"
    show "map_of extras p = Some e
            \<or> (command e \<noteq> '''' \<and> documentation e = ''https://ctan.org/pkg/'' @ p
                \<and> (\<exists>x \<in> set ctanList. key x = p \<and> detail e = caption x))"
    proof (cases "map_of (get_packages db ?cd all) p")
      case None
      with a have "map_of extras p = Some e"
        by (simp add: pd map_of_add_extra_packages)
      then show ?thesis ..
    next
      case (Some r)
      with a have er: "e = r"
        by (simp add: pd map_of_add_extra_packages)
      from Some obtain ce b where ce: "map_of ?cd p = Some ce"
          and b: "package2sty p db all = Some b" and r: "r = ce\<lparr>command := b\<rparr>"
        by (auto simp: map_of_get_packages split: option.splits)
      from names [of p] b have "b \<noteq> ''''"
        by (intro package2sty_nonempty [of all db p b]) simp_all
      moreover from build_entry [OF ce] obtain x
        where "x \<in> set ctanList" and "key x = p" and "ce = ctan_entry x"
        by blast
      ultimately have "command e \<noteq> '''' \<and> documentation e = ''https://ctan.org/pkg/'' @ p
                \<and> (\<exists>x \<in> set ctanList. key x = p \<and> detail e = caption x)"
        unfolding er r by (auto simp: ctan_entry_def)
      then show ?thesis ..
    qed
  qed
  have 2: "map_of class_data k = Some e' \<longrightarrow>
            command e' = k \<and> k \<noteq> ''''
            \<and> (case map_of (build_ctanDict ctanList) k of
                  None \<Rightarrow> detail e' = '''' \<and> documentation e' = ''''
                | Some ce \<Rightarrow> detail e' = detail ce
                    \<and> documentation e' = ''https://ctan.org/pkg/'' @ k)"
  proof
    assume "map_of class_data k = Some e'"
    then have "map_of (get_classes all ?cd) k = Some e'"
      by (simp only: cl)
    from get_classes_entry [OF this] obtain c
      where c: "c \<in> set all" and k: "path_stem c = k" and e: "e' = class_entry ?cd k"
      by blast
    from names [of p] c have "stored_name c" by simp
    then have "path_stem c \<noteq> ''''" by (rule stored_stem_nonempty)
    with k have kn: "k \<noteq> ''''" by simp
    show "command e' = k \<and> k \<noteq> ''''
            \<and> (case map_of (build_ctanDict ctanList) k of
                  None \<Rightarrow> detail e' = '''' \<and> documentation e' = ''''
                | Some ce \<Rightarrow> detail e' = detail ce
                    \<and> documentation e' = ''https://ctan.org/pkg/'' @ k)"
    proof (cases "map_of ?cd k")
      case None
      with kn show ?thesis
        by (simp add: e class_entry_def)
    next
      case (Some ce)
      from build_entry [OF Some] obtain x where "key x = k" and "ce = ctan_entry x"
        by blast
      then have "documentation ce = ''https://ctan.org/pkg/'' @ k"
        by (simp add: ctan_entry_def)
      with kn Some show ?thesis
        by (simp add: e class_entry_def)
    qed
  qed
  show ?thesis
    by (rule conjI [OF 1 2])
qed

theorem pipeline_entries_witness:
  "main_tables
       [\<lparr>key = ''foo'', caption = ''Foo package''\<rparr>,
        \<lparr>key = ''article'', caption = ''Standard class''\<rparr>]
       [''./foo:'', ''foo.sty'', ''article.cls'', ''memo.cls'', '''']
       [(''expl3'', \<lparr>command = ''expl3'', detail = ''LaTeX3'', documentation = ''d''\<rparr>)]
     = ([(''foo'', \<lparr>command = ''foo'', detail = ''Foo package'',
            documentation = ''https://ctan.org/pkg/foo''\<rparr>),
         (''expl3'', \<lparr>command = ''expl3'', detail = ''LaTeX3'', documentation = ''d''\<rparr>)],
        [(''article'', \<lparr>command = ''article'', detail = ''Standard class'',
            documentation = ''https://ctan.org/pkg/article''\<rparr>),
         (''memo'', \<lparr>command = ''memo'', detail = '''', documentation = ''''\<rparr>)])
   \<and> (map_of [(''expl3'', \<lparr>command = ''expl3'', detail = ''LaTeX3'', documentation = ''d''\<rparr>)]
          ''foo''
        = Some \<lparr>command = ''foo'', detail = ''Foo package'',
            documentation = ''https://ctan.org/pkg/foo''\<rparr>
      \<or> (command \<lparr>command = ''foo'', detail = ''Foo package'',
            documentation = ''https://ctan.org/pkg/foo''\<rparr> \<noteq> ''''
          \<and> documentation \<lparr>command = ''foo'', detail = ''Foo package'',
            documentation = ''https://ctan.org/pkg/foo''\<rparr> = ''https://ctan.org/pkg/'' @ ''foo''
          \<and> (\<exists>x \<in> set [\<lparr>key = ''foo'', caption = ''Foo package''\<rparr>,
                \<lparr>key = ''article'', caption = ''Standard class''\<rparr>].
                key x = ''foo''
                \<and> detail \<lparr>command = ''foo'', detail = ''Foo package'',
                     documentation = ''https://ctan.org/pkg/foo''\<rparr> = caption x)))
   \<and> (command \<lparr>command = ''memo'', detail = '''', documentation = ''''\<rparr> = ''memo''
        \<and> ''memo'' \<noteq> ''''
        \<and> (case map_of (build_ctanDict [\<lparr>key = ''foo'', caption = ''Foo package''\<rparr>,
                \<lparr>key = ''article'', caption = ''Standard class''\<rparr>]) ''memo'' of
              None \<Rightarrow> detail \<lparr>command = ''memo'', detail = '''', documentation = ''''\<rparr> = ''''
                \<and> documentation \<lparr>command = ''memo'', detail = '''', documentation = ''''\<rparr> = ''''
            | Some ce \<Rightarrow> detail \<lparr>command = ''memo'', detail = '''', documentation = ''''\<rparr>
                  = detail ce
                \<and> documentation \<lparr>command = ''memo'', detail = '''', documentation = ''''\<rparr>
                  = ''https://ctan.org/pkg/'' @ ''memo''))"
proof -
  let ?L = "[\<lparr>key = ''foo'', caption = ''Foo package''\<rparr>,
        \<lparr>key = ''article'', caption = ''Standard class''\<rparr>]"
  let ?E = "[(''expl3'', \<lparr>command = ''expl3'', detail = ''LaTeX3'', documentation = ''d''\<rparr>)]"
  let ?P = "[(''foo'', \<lparr>command = ''foo'', detail = ''Foo package'',
            documentation = ''https://ctan.org/pkg/foo''\<rparr>),
         (''expl3'', \<lparr>command = ''expl3'', detail = ''LaTeX3'', documentation = ''d''\<rparr>)]"
  let ?C = "[(''article'', \<lparr>command = ''article'', detail = ''Standard class'',
            documentation = ''https://ctan.org/pkg/article''\<rparr>),
         (''memo'', \<lparr>command = ''memo'', detail = '''', documentation = ''''\<rparr>)]"
  let ?ef = "\<lparr>command = ''foo'', detail = ''Foo package'',
            documentation = ''https://ctan.org/pkg/foo''\<rparr>"
  let ?em = "\<lparr>command = ''memo'', detail = '''', documentation = ''''\<rparr>"
  have ev: "main_tables ?L [''./foo:'', ''foo.sty'', ''article.cls'', ''memo.cls'', ''''] ?E = (?P, ?C)"
    by code_simp
  have hp: "map_of ?P ''foo'' = Some ?ef" by simp
  have hc: "map_of ?C ''memo'' = Some ?em" by simp
  note t = pipeline_entries [OF ev, where p = "''foo''" and e = ?ef and k = "''memo''" and e' = ?em]
  have c1: "map_of ?E ''foo'' = Some ?ef
      \<or> (command ?ef \<noteq> '''' \<and> documentation ?ef = ''https://ctan.org/pkg/'' @ ''foo''
          \<and> (\<exists>x \<in> set ?L. key x = ''foo'' \<and> detail ?ef = caption x))"
    using t [THEN conjunct1] hp by (rule mp)
  have c2: "command ?em = ''memo'' \<and> ''memo'' \<noteq> ''''
        \<and> (case map_of (build_ctanDict ?L) ''memo'' of
              None \<Rightarrow> detail ?em = '''' \<and> documentation ?em = ''''
            | Some ce \<Rightarrow> detail ?em = detail ce
                \<and> documentation ?em = ''https://ctan.org/pkg/'' @ ''memo'')"
    using t [THEN conjunct2] hc by (rule mp)
  show ?thesis
    by (rule conjI [OF ev conjI [OF c1 c2]])
qed

text \<open>
  A catalogue record with an empty caption gives a package entry with an empty detail,
  and the merger copies an extras record with an empty command into the package table.
\<close>

theorem pipeline_entries_counterexample:
  "main_tables [\<lparr>key = ''foo'', caption = ''''\<rparr>] [''./foo:'', ''foo.sty'', '''']
       [(''bar'', \<lparr>command = '''', detail = '''', documentation = ''''\<rparr>)]
     = ([(''foo'', \<lparr>command = ''foo'', detail = '''',
            documentation = ''https://ctan.org/pkg/foo''\<rparr>),
         (''bar'', \<lparr>command = '''', detail = '''', documentation = ''''\<rparr>)],
        [])"
  by code_simp

end
